theory Spec2Isabelle
  imports Complex_Main "HOL-Library.AList" "HOL-Library.Sublist"
begin

section \<open>The text cleaner\<close>

text \<open>
  \<^verbatim>\<open>GrokTweetBot._clean_text\<close> of \<^verbatim>\<open>src/main.py\<close>:
  \<^verbatim>\<open>
    text = re.sub(r"\s*\[\d{1,3}\]$", "", text.strip())
    text = re.sub(r"\s*([.,;!?])", r"\1", text)
    return text.strip()
  \<close>
  A Python string is modelled as a \<^typ>\<open>string\<close> whose characters are the code points
  below 256. The character classes are those of Python on that range:
  \<^verbatim>\<open>str.strip()\<close> removes the characters for which \<^verbatim>\<open>str.isspace()\<close> holds, which
  include the separators U+001C to U+001F; the class \<^verbatim>\<open>\s\<close> of the \<^verbatim>\<open>regex\<close> module
  is the Unicode property White_Space, which does not. The class \<^verbatim>\<open>\d\<close> has only the
  digits 0 to 9 below 256.
\<close>

definition py_isspace :: "char \<Rightarrow> bool" where
  "py_isspace c \<longleftrightarrow> c \<in> set [CHR 0x09, CHR 0x0A, CHR 0x0B, CHR 0x0C, CHR 0x0D,
      CHR 0x1C, CHR 0x1D, CHR 0x1E, CHR 0x1F, CHR 0x20, CHR 0x85, CHR 0xA0]"

definition re_space :: "char \<Rightarrow> bool" where
  "re_space c \<longleftrightarrow> c \<in> set [CHR 0x09, CHR 0x0A, CHR 0x0B, CHR 0x0C, CHR 0x0D,
      CHR 0x20, CHR 0x85, CHR 0xA0]"

definition re_digit :: "char \<Rightarrow> bool" where
  "re_digit c \<longleftrightarrow> c \<in> set ''0123456789''"

text \<open>The character class \<^verbatim>\<open>[.,;!?]\<close> of the second pattern.\<close>

definition is_punct :: "char \<Rightarrow> bool" where
  "is_punct c \<longleftrightarrow> c \<in> set ''.,;!?''"

text \<open>\<^verbatim>\<open>str.strip()\<close>: leading and trailing whitespace is dropped.\<close>

definition strip :: "string \<Rightarrow> string" where
  "strip s = rev (dropWhile py_isspace (rev (dropWhile py_isspace s)))"

text \<open>
  \<^verbatim>\<open>re.sub(r"\s*\[\d{1,3}\]$", "", s)\<close>. Without the MULTILINE flag, \<^verbatim>\<open>$\<close> matches at
  the end of the string and just before a newline that is its last character; a match
  ends with \<^verbatim>\<open>]\<close>, so the position is fixed by the last character of \<open>s\<close>. Read from the
  right, a match is \<^verbatim>\<open>]\<close>, the maximal run of digits (one to three of them), \<^verbatim>\<open>[\<close>, and, the
  leftmost match being the one that is replaced, all the whitespace before it:
  \<open>marker_match\<close> gives the text before the match, if there is one. What is left of
  the string cannot match again.
\<close>

definition marker_match :: "string \<Rightarrow> string option" where
  "marker_match body =
     (case rev body of
        [] \<Rightarrow> None
      | c # r1 \<Rightarrow>
          if c = CHR '']'' then
            (case dropWhile re_digit r1 of
               [] \<Rightarrow> None
             | b # r2 \<Rightarrow>
                 if b = CHR ''['' \<and> 1 \<le> length (takeWhile re_digit r1)
                    \<and> length (takeWhile re_digit r1) \<le> 3
                 then Some (rev (dropWhile re_space r2))
                 else None)
          else None)"

definition re_sub_marker :: "string \<Rightarrow> string" where
  "re_sub_marker s =
     (let (body, tail) =
            (if s \<noteq> [] \<and> last s = CHR 0x0A then (butlast s, [CHR 0x0A]) else (s, []))
      in case marker_match body of
           None \<Rightarrow> s
         | Some pre \<Rightarrow> pre @ tail)"

text \<open>
  \<^verbatim>\<open>re.sub(r"\s*([.,;!?])", r"\1", s)\<close>: the scan of \<^verbatim>\<open>re.sub\<close> from left to right. At a
  position where the greedy \<^verbatim>\<open>\s*\<close> is followed by a punctuation character the match is
  replaced by that character and the scan goes on behind it; elsewhere one character is
  copied and the scan moves one position to the right.
\<close>

function re_sub_punct :: "string \<Rightarrow> string" where
  "re_sub_punct [] = []"
| "re_sub_punct (c # cs) =
     (case dropWhile re_space (c # cs) of
        [] \<Rightarrow> c # re_sub_punct cs
      | p # rest \<Rightarrow> if is_punct p then p # re_sub_punct rest else c # re_sub_punct cs)"
  by pat_completeness auto
termination
proof (relation "measure length")
  show "wf (measure length)" by simp
next
  fix c :: char and cs
  show "(cs, c # cs) \<in> measure length" by simp
next
  fix c :: char and cs p rest
  assume "dropWhile re_space (c # cs) = p # rest"
  then have "length (p # rest) \<le> length (c # cs)"
    by (metis length_dropWhile_le)
  then show "(rest, c # cs) \<in> measure length" by simp
next
  fix c :: char and cs
  show "(cs, c # cs) \<in> measure length" by simp
qed

definition clean_text :: "string \<Rightarrow> string" where
  "clean_text text = strip (re_sub_punct (re_sub_marker (strip text)))"

section \<open>Values, the cache and its file\<close>

text \<open>
  The values that pass through the bot: what \<^verbatim>\<open>ast.literal_eval\<close> builds from the model's
  answer, what the posting services return (\<^verbatim>\<open>response.data\<close>, \<^verbatim>\<open>resp.json()\<close>), and what
  \<^verbatim>\<open>json.loads\<close> reads back from the cache file. A dictionary is an association list in
  insertion order, the order in which \<^verbatim>\<open>dict.items()\<close> iterates; its keys are integers or
  strings. Floats, tuples, sets and bytes, which \<^verbatim>\<open>ast.literal_eval\<close> can also build, are
  not modelled.
\<close>

datatype pykey = KInt int | KStr string

datatype pyval =
    PNone
  | PBool bool
  | PInt int
  | PStr string
  | PList "pyval list"
  | PDict "(pykey \<times> pyval) list"

text \<open>
  A JSON document. The cache file holds one; the text of the document
  (\<^verbatim>\<open>indent=2\<close>, \<^verbatim>\<open>ensure_ascii=False\<close>) is not modelled, since writing a document and
  parsing the text give the document back.
\<close>

datatype json =
    JNull
  | JBool bool
  | JInt int
  | JStr string
  | JArr "json list"
  | JObj "(string \<times> json) list"

text \<open>\<^verbatim>\<open>str(i)\<close> for an integer, as \<^verbatim>\<open>json.dumps\<close> writes an integer key.\<close>

definition digit_char :: "nat \<Rightarrow> char" where
  "digit_char d = ''0123456789'' ! d"

function str_nat :: "nat \<Rightarrow> string" where
  "str_nat n = (if n < 10 then [digit_char n] else str_nat (n div 10) @ [digit_char (n mod 10)])"
  by pat_completeness auto
termination
  by (relation "measure id") auto

declare str_nat.simps [simp del]

definition str_int :: "int \<Rightarrow> string" where
  "str_int i = (if i < 0 then CHR ''-'' # str_nat (nat (- i)) else str_nat (nat i))"

fun key_str :: "pykey \<Rightarrow> string" where
  "key_str (KStr s) = s"
| "key_str (KInt i) = str_int i"

text \<open>
  \<^verbatim>\<open>json.dumps\<close>: the keys of a dictionary become strings. \<^verbatim>\<open>json.loads\<close>: an object
  becomes a dictionary with string keys; of two members with one key the later value is
  kept.
\<close>

fun json_dumps :: "pyval \<Rightarrow> json" where
  "json_dumps PNone = JNull"
| "json_dumps (PBool b) = JBool b"
| "json_dumps (PInt i) = JInt i"
| "json_dumps (PStr s) = JStr s"
| "json_dumps (PList xs) = JArr (map json_dumps xs)"
| "json_dumps (PDict kvs) = JObj (map (\<lambda>(k, v). (key_str k, json_dumps v)) kvs)"

fun json_loads :: "json \<Rightarrow> pyval" where
  "json_loads JNull = PNone"
| "json_loads (JBool b) = PBool b"
| "json_loads (JInt i) = PInt i"
| "json_loads (JStr s) = PStr s"
| "json_loads (JArr xs) = PList (map json_loads xs)"
| "json_loads (JObj kvs) =
     PDict (foldl (\<lambda>d (k, v). AList.update (KStr k) v d) []
              (map (\<lambda>(k, j). (k, json_loads j)) kvs))"

text \<open>
  \<^verbatim>\<open>self.cache\<close> is a dictionary from strings to values; \<^verbatim>\<open>tweet_cache.json\<close> is absent or
  holds a JSON object (the bot writes nothing else). \<open>cache_get\<close> is the test
  \<^verbatim>\<open>(cached := self.cache.get(cache_key)) is not None\<close>: a key that is absent and a key
  whose value is \<^verbatim>\<open>None\<close> are both a miss.
\<close>

type_synonym cache = "(string \<times> pyval) list"

type_synonym cache_file = "(string \<times> json) list option"

definition cache_get :: "cache \<Rightarrow> string \<Rightarrow> pyval option" where
  "cache_get c k =
     (case map_of c k of
        None \<Rightarrow> None
      | Some v \<Rightarrow> if v = PNone then None else Some v)"

text \<open>
  \<^verbatim>\<open>_save_cache\<close> rewrites the whole file; \<^verbatim>\<open>_load_cache\<close> creates the file with an empty
  object when it is absent and returns what the file holds.
\<close>

definition save_cache :: "cache \<Rightarrow> cache_file" where
  "save_cache c = Some (map (\<lambda>(k, v). (k, json_dumps v)) c)"

definition load_cache :: "cache_file \<Rightarrow> cache \<times> cache_file" where
  "load_cache f =
     (case f of
        None \<Rightarrow> ([], Some [])
      | Some obj \<Rightarrow>
          (foldl (\<lambda>d (k, v). AList.update k v d) []
             (map (\<lambda>(k, j). (k, json_loads j)) obj), f))"

section \<open>The bot\<close>

text \<open>
  Exceptions. \<open>TweepyException\<close> stands for \<^verbatim>\<open>tweepy.TweepyException\<close> and its subclasses,
  \<open>PyException\<close> for any other subclass of \<^verbatim>\<open>Exception\<close> (class name and message);
  \<^verbatim>\<open>KeyboardInterrupt\<close> is not a subclass of \<^verbatim>\<open>Exception\<close>.
\<close>

datatype exn =
    TweepyException string
  | AttributeError string
  | PyException string string
  | KeyboardInterrupt

fun is_Exception :: "exn \<Rightarrow> bool" where
  "is_Exception KeyboardInterrupt = False"
| "is_Exception _ = True"

fun is_TweepyException :: "exn \<Rightarrow> bool" where
  "is_TweepyException (TweepyException _) = True"
| "is_TweepyException _ = False"

text \<open>
  The requests sent to the remote services: the chat request to the language model
  (model, temperature, prompt; the system prompt is a constant), the tweet, and the
  Telegram message (URL, chat id, text).
\<close>

datatype request =
    GrokRequest string real string
  | TweetRequest string
  | TelegramRequest string "string option" string

text \<open>One constructor for each call of the logger.\<close>

datatype log_record =
    Processing string
  | GrokCacheHit string
  | GrokFailed exn
  | TweetCacheHit
  | TweetPosted pyval
  | TweetFailed exn
  | TelegramCacheHit
  | TelegramSent pyval
  | TelegramFailed exn
  | SchedulerStopped

text \<open>
  The collaborators are parameters. Each remote call answers with a value or raises; the
  answer may depend on the requests sent before. \<open>grok_chat\<close> is
  \<^verbatim>\<open>grok_client.chat.create(...)\<close> followed by the loop over \<^verbatim>\<open>chat.stream()\<close>, which
  collects the contents of the chunks; \<open>create_tweet\<close> gives \<^verbatim>\<open>response.data\<close>;
  \<open>requests_post\<close> is \<^verbatim>\<open>requests.post\<close>, \<^verbatim>\<open>raise_for_status\<close> and \<^verbatim>\<open>resp.json()\<close>.
  \<open>literal_eval\<close> is \<^verbatim>\<open>ast.literal_eval\<close>.
\<close>

record env =
  grok_chat :: "request list \<Rightarrow> string \<Rightarrow> real \<Rightarrow> string \<Rightarrow> exn + string list"
  literal_eval :: "string \<Rightarrow> exn + pyval"
  create_tweet :: "request list \<Rightarrow> string \<Rightarrow> exn + pyval"
  requests_post :: "request list \<Rightarrow> string \<Rightarrow> string option \<Rightarrow> string \<Rightarrow> exn + pyval"

record config =
  telegram_api_url :: "string option"
  TELEGRAM_CHAT_ID :: "string option"

text \<open>
  The state: the dictionary \<^verbatim>\<open>self.cache\<close>, the cache file, the requests sent so far
  (oldest first) and the log.
\<close>

record bot =
  cache :: cache
  cache_file :: cache_file
  calls :: "request list"
  logged :: "log_record list"

definition send :: "request \<Rightarrow> bot \<Rightarrow> bot" where
  "send r st = st\<lparr>calls := calls st @ [r]\<rparr>"

definition log_msg :: "log_record \<Rightarrow> bot \<Rightarrow> bot" where
  "log_msg m st = st\<lparr>logged := logged st @ [m]\<rparr>"

text \<open>\<^verbatim>\<open>self.cache[cache_key] = value; _save_cache(self.cache)\<close>\<close>

definition store :: "string \<Rightarrow> pyval \<Rightarrow> bot \<Rightarrow> bot" where
  "store k v st =
     (let c = AList.update k v (cache st) in st\<lparr>cache := c, cache_file := save_cache c\<rparr>)"

text \<open>
  \<^verbatim>\<open>GrokTweetBot.__init__\<close> reads the cache file once; a restart of the process is a new
  bot over the file the old one left.
\<close>

definition new_bot :: "cache_file \<Rightarrow> request list \<Rightarrow> log_record list \<Rightarrow> bot" where
  "new_bot f rs ms =
     (let (c, f') = load_cache f in \<lparr>cache = c, cache_file = f', calls = rs, logged = ms\<rparr>)"

definition restart :: "bot \<Rightarrow> bot" where
  "restart st = new_bot (cache_file st) (calls st) (logged st)"

text \<open>
  \<^verbatim>\<open>_query_grok\<close>. An operation returns the value or the exception it raises, and the
  state it leaves. \<^verbatim>\<open>except Exception: logger.exception(...); raise\<close> logs and raises
  the exception it caught.
\<close>

definition grok_key :: "string \<Rightarrow> string \<Rightarrow> string" where
  "grok_key model user_prompt = ''grok::'' @ model @ ''::'' @ user_prompt"

definition grok_failed :: "exn \<Rightarrow> bot \<Rightarrow> (exn + pyval) \<times> bot" where
  "grok_failed e st = (Inl e, if is_Exception e then log_msg (GrokFailed e) st else st)"

definition query_grok :: "env \<Rightarrow> bot \<Rightarrow> string \<Rightarrow> string \<Rightarrow> real \<Rightarrow> (exn + pyval) \<times> bot" where
  "query_grok env st user_prompt model temperature =
     (let cache_key = grok_key model user_prompt in
      case cache_get (cache st) cache_key of
        Some cached \<Rightarrow> (Inr cached, log_msg (GrokCacheHit (take 60 user_prompt)) st)
      | None \<Rightarrow>
          let st1 = send (GrokRequest model temperature user_prompt) st in
          (case grok_chat env (calls st) model temperature user_prompt of
             Inl e \<Rightarrow> grok_failed e st1
           | Inr chunks \<Rightarrow>
               (case literal_eval env (concat chunks) of
                  Inl e \<Rightarrow> grok_failed e st1
                | Inr parsed \<Rightarrow> (Inr parsed, store cache_key parsed st1))))"

text \<open>\<^verbatim>\<open>_post_tweet\<close>: only a \<^verbatim>\<open>tweepy.TweepyException\<close> is caught.\<close>

definition tweet_key :: "string \<Rightarrow> string" where
  "tweet_key text = ''tweet::'' @ text"

definition post_tweet :: "env \<Rightarrow> bot \<Rightarrow> string \<Rightarrow> (exn + pyval) \<times> bot" where
  "post_tweet env st text =
     (let cache_key = tweet_key text in
      case cache_get (cache st) cache_key of
        Some cached \<Rightarrow> (Inr cached, log_msg TweetCacheHit st)
      | None \<Rightarrow>
          let st1 = send (TweetRequest text) st in
          (case create_tweet env (calls st) text of
             Inl e \<Rightarrow>
               if is_TweepyException e then (Inr PNone, log_msg (TweetFailed e) st1)
               else (Inl e, st1)
           | Inr data \<Rightarrow> (Inr data, log_msg (TweetPosted data) (store cache_key data st1))))"

text \<open>
  \<^verbatim>\<open>_post_telegram\<close>. The argument of the last \<^verbatim>\<open>logger.info\<close>,
  \<^verbatim>\<open>data.get("result", {}).get("message_id")\<close>, is evaluated inside the \<^verbatim>\<open>try\<close>, after the
  cache is written; it raises \<^verbatim>\<open>AttributeError\<close> when \<^verbatim>\<open>data\<close> or its \<^verbatim>\<open>result\<close> is not a
  dictionary.
\<close>

definition telegram_key :: "string \<Rightarrow> string" where
  "telegram_key text = ''telegram::'' @ text"

definition py_get :: "pyval \<Rightarrow> string \<Rightarrow> pyval \<Rightarrow> exn + pyval" where
  "py_get d k dflt =
     (case d of
        PDict kvs \<Rightarrow> Inr (case map_of kvs (KStr k) of None \<Rightarrow> dflt | Some v \<Rightarrow> v)
      | _ \<Rightarrow> Inl (AttributeError ''get''))"

definition message_id :: "pyval \<Rightarrow> exn + pyval" where
  "message_id data =
     (case py_get data ''result'' (PDict []) of
        Inl e \<Rightarrow> Inl e
      | Inr r \<Rightarrow> py_get r ''message_id'' PNone)"

definition post_telegram :: "env \<Rightarrow> config \<Rightarrow> bot \<Rightarrow> string \<Rightarrow> (exn + pyval) \<times> bot" where
  "post_telegram env cfg st text =
     (case telegram_api_url cfg of
        None \<Rightarrow> (Inr PNone, st)
      | Some url \<Rightarrow>
          if url = [] then (Inr PNone, st)
          else
            let cache_key = telegram_key text in
            (case cache_get (cache st) cache_key of
               Some cached \<Rightarrow> (Inr cached, log_msg TelegramCacheHit st)
             | None \<Rightarrow>
                 let st1 = send (TelegramRequest url (TELEGRAM_CHAT_ID cfg) text) st in
                 (case requests_post env (calls st) url (TELEGRAM_CHAT_ID cfg) text of
                    Inl e \<Rightarrow>
                      if is_Exception e then (Inr PNone, log_msg (TelegramFailed e) st1)
                      else (Inl e, st1)
                  | Inr data \<Rightarrow>
                      let st2 = store cache_key data st1 in
                      (case message_id data of
                         Inl e \<Rightarrow> (Inr PNone, log_msg (TelegramFailed e) st2)
                       | Inr mid \<Rightarrow> (Inr data, log_msg (TelegramSent mid) st2)))))"

text \<open>
  \<^verbatim>\<open>process_and_broadcast\<close>. The loop runs over \<^verbatim>\<open>paragraphs.items()\<close>; \<open>results\<close> is the
  dictionary built so far. A paragraph that is not a string has no \<^verbatim>\<open>strip\<close>, a value
  that is not a dictionary has no \<^verbatim>\<open>items\<close>.
\<close>

definition result_entry :: "pyval \<Rightarrow> pyval \<Rightarrow> pyval" where
  "result_entry tweet_res tel_res = PDict [(KStr ''tweet'', tweet_res), (KStr ''telegram'', tel_res)]"

fun broadcast_loop ::
  "env \<Rightarrow> config \<Rightarrow> (pykey \<times> pyval) list \<Rightarrow> (pykey \<times> pyval) list \<Rightarrow> bot \<Rightarrow> (exn + pyval) \<times> bot"
where
  "broadcast_loop env cfg [] results st = (Inr (PDict results), st)"
| "broadcast_loop env cfg ((idx, para) # rest) results st =
     (case para of
        PStr text \<Rightarrow>
          (case post_tweet env st (clean_text text) of
             (Inl e, st1) \<Rightarrow> (Inl e, st1)
           | (Inr tweet_res, st1) \<Rightarrow>
               (case post_telegram env cfg st1 (clean_text text) of
                  (Inl e, st2) \<Rightarrow> (Inl e, st2)
                | (Inr tel_res, st2) \<Rightarrow>
                    broadcast_loop env cfg rest
                      (AList.update idx (result_entry tweet_res tel_res) results) st2))
      | _ \<Rightarrow> (Inl (AttributeError ''strip''), st))"

definition process_and_broadcast :: "env \<Rightarrow> config \<Rightarrow> bot \<Rightarrow> string \<Rightarrow> (exn + pyval) \<times> bot" where
  "process_and_broadcast env cfg st user_prompt =
     (case query_grok env (log_msg (Processing user_prompt) st) user_prompt ''grok-4'' 0 of
        (Inl e, st1) \<Rightarrow> (Inl e, st1)
      | (Inr paragraphs, st1) \<Rightarrow>
          (case paragraphs of
             PDict ps \<Rightarrow> broadcast_loop env cfg ps [] st1
           | _ \<Rightarrow> (Inl (AttributeError ''items''), st1)))"

section \<open>The scheduler\<close>





subsection \<open>Auxiliary notions for the cleaner\<close>

text \<open>
  \<open>fbp cs\<close>: the first character of \<open>cs\<close> that is not whitespace is a punctuation
  character, so that whitespace standing before \<open>cs\<close> is removed by the second
  substitution. \<open>gapfree s\<close>: no whitespace of \<open>s\<close> stands before punctuation.
\<close>

definition fbp :: "string \<Rightarrow> bool" where
  "fbp cs = (case dropWhile re_space cs of [] \<Rightarrow> False | p # _ \<Rightarrow> is_punct p)"

fun gapfree :: "string \<Rightarrow> bool" where
  "gapfree [] = True"
| "gapfree (c # cs) = (\<not> (re_space c \<and> fbp cs) \<and> gapfree cs)"

subsection \<open>Auxiliary notions for the bot\<close>

text \<open>
  Collaborators whose answers do not depend on the requests sent before: the model's
  answer is a function of the prompt, a post's of the text.
\<close>

definition stateless_env ::
  "(string \<Rightarrow> exn + string list) \<Rightarrow> (string \<Rightarrow> exn + pyval) \<Rightarrow> (string \<Rightarrow> exn + pyval)
     \<Rightarrow> (string \<Rightarrow> exn + pyval) \<Rightarrow> env" where
  "stateless_env g l tw tg =
     \<lparr>grok_chat = (\<lambda>h model temperature user_prompt. g user_prompt),
      literal_eval = l,
      create_tweet = (\<lambda>h text. tw text),
      requests_post = (\<lambda>h url chat_id text. tg text)\<rparr>"

text \<open>
  \<open>later st st'\<close>: the bot gets from \<open>st\<close> to \<open>st'\<close> by operations of its own, each of any
  arguments and with any answers of the collaborators, without a restart: a log entry, a
  generation, a post to the primary channel, a post to the secondary channel. The states
  inside a broadcast, at which the program makes its posts, are reached in this way, and
  so are the states after whole broadcasts.
\<close>

inductive later :: "bot \<Rightarrow> bot \<Rightarrow> bool" where
  later_refl: "later st st"
| later_log: "later st st1 \<Longrightarrow> later st (log_msg m st1)"
| later_query: "later st st1 \<Longrightarrow> later st (snd (query_grok env st1 user_prompt model temperature))"
| later_tweet: "later st st1 \<Longrightarrow> later st (snd (post_tweet env st1 x))"
| later_telegram: "later st st1 \<Longrightarrow> later st (snd (post_telegram env cfg st1 x))"



text \<open>
  \<open>keeps st st'\<close>: every entry that \<open>cache_get\<close> finds in the cache of \<open>st\<close> is in the
  cache of \<open>st'\<close>, with the same value.
\<close>

definition keeps :: "bot \<Rightarrow> bot \<Rightarrow> bool" where
  "keeps st st' \<longleftrightarrow>
     (\<forall>k v. cache_get (cache st) k = Some v \<longrightarrow> cache_get (cache st') k = Some v)"

subsection \<open>A scenario\<close>

text \<open>
  The scenario of the specification: the model answers with two paragraphs, each with its
  character count, and both posting services accept every text.
\<close>

definition demo_cfg :: config where
  "demo_cfg = \<lparr>telegram_api_url = Some ''https://api.telegram.org/bot1/sendMessage'',
      TELEGRAM_CHAT_ID = Some ''42''\<rparr>"

definition demo_paragraphs :: pyval where
  "demo_paragraphs =
     PDict [(KInt 1, PStr ''Markets rose today. [123]''), (KInt 2, PStr ''Banks led gains. [87]'')]"

definition tweet_ok :: "string \<Rightarrow> exn + pyval" where
  "tweet_ok text = Inr (PDict [(KStr ''id'', PStr ''1''), (KStr ''text'', PStr text)])"

definition telegram_ok :: "string \<Rightarrow> exn + pyval" where
  "telegram_ok text =
     Inr (PDict [(KStr ''ok'', PBool True), (KStr ''result'', PDict [(KStr ''message_id'', PInt 7)])])"

definition demo_env :: env where
  "demo_env = stateless_env (\<lambda>p. Inr [''{1: ..., '', ''2: ...}'']) (\<lambda>s. Inr demo_paragraphs)
     tweet_ok telegram_ok"

text \<open>The model's answer does not parse: \<^verbatim>\<open>ast.literal_eval\<close> raises \<^verbatim>\<open>ValueError\<close>.\<close>

definition malformed_env :: env where
  "malformed_env = stateless_env (\<lambda>p. Inr [''{1: unquoted}''])
     (\<lambda>s. Inl (PyException ''ValueError'' ''malformed node or string'')) tweet_ok telegram_ok"

text \<open>
  The connection to the primary channel breaks for one text: \<^verbatim>\<open>create_tweet\<close> raises
  \<^verbatim>\<open>requests.exceptions.ConnectionError\<close>, which is not a \<^verbatim>\<open>tweepy.TweepyException\<close>.
\<close>

definition three_paragraphs :: pyval where
  "three_paragraphs =
     PDict [(KInt 1, PStr ''Markets rose today. [123]''), (KInt 2, PStr ''Banks led gains. [87]''),
            (KInt 3, PStr ''Oil fell. [9]'')]"

definition broken_tweet :: "string \<Rightarrow> exn + pyval" where
  "broken_tweet text =
     (if text = ''Banks led gains.'' then Inl (PyException ''ConnectionError'' ''Connection aborted.'')
      else tweet_ok text)"

definition broken_env :: env where
  "broken_env = stateless_env (\<lambda>p. Inr [''{1: ..., 2: ..., 3: ...}'']) (\<lambda>s. Inr three_paragraphs)
     broken_tweet telegram_ok"

text \<open>Both posting services refuse every text.\<close>

definition failing_env :: env where
  "failing_env = stateless_env (\<lambda>p. Inr [''{1: ..., '', ''2: ...}'']) (\<lambda>s. Inr demo_paragraphs)
     (\<lambda>text. Inl (TweepyException ''403 Forbidden''))
     (\<lambda>text. Inl (PyException ''HTTPError'' ''502 Server Error''))"

text \<open>
  \<open>generation_fails env st p e\<close>: in the state \<open>st\<close> the prompt \<open>p\<close> is not cached for the
  default model, and the request to the language model raises \<open>e\<close>, or its answer is
  received and \<^verbatim>\<open>ast.literal_eval\<close> raises \<open>e\<close> on it.
\<close>

definition generation_fails :: "env \<Rightarrow> bot \<Rightarrow> string \<Rightarrow> exn \<Rightarrow> bool" where
  "generation_fails env st p e \<longleftrightarrow>
     cache_get (cache st) (grok_key ''grok-4'' p) = None \<and>
     (case grok_chat env (calls st) ''grok-4'' 0 p of
        Inl e' \<Rightarrow> e' = e
      | Inr chunks \<Rightarrow> literal_eval env (concat chunks) = Inl e)"



text \<open>
  A state inside a broadcast: the prompt is logged, the generation is done, and a first
  paragraph, whose cleaned text is \<open>x\<close>, is posted to both channels; the next step of the
  broadcast is the post of the second paragraph to the primary channel.
\<close>

definition inside :: "env \<Rightarrow> config \<Rightarrow> bot \<Rightarrow> string \<Rightarrow> string \<Rightarrow> bot" where
  "inside env cfg st user_prompt x =
     snd (post_telegram env cfg
            (snd (post_tweet env
                    (snd (query_grok env (log_msg (Processing user_prompt) st) user_prompt ''grok-4'' 0))
                    x))
            x)"

text \<open>
  Two broadcasts, seen from inside. In the first, of the prompt \<^verbatim>\<open>"sector update"\<close> in the
  scenario, paragraph 1 is published (\<open>first_inside\<close>), then paragraph 2,
  \<^verbatim>\<open>"Banks led gains."\<close>, is posted to the primary channel (\<open>first_tweeted\<close>) and to the
  secondary channel (\<open>first_done\<close>, the end of the broadcast). The second broadcast, of
  another prompt, has the same text as its paragraph 2, and the connection to the primary
  channel is broken for it; \<open>second_inside\<close> and \<open>second_tweeted\<close> are its states before
  the two posts of that paragraph.
\<close>

definition first_inside :: bot where
  "first_inside = inside demo_env demo_cfg (new_bot None [] []) ''sector update'' ''Markets rose today.''"

definition first_tweeted :: bot where
  "first_tweeted = snd (post_tweet demo_env first_inside ''Banks led gains.'')"

definition first_done :: bot where
  "first_done = snd (post_telegram demo_env demo_cfg first_tweeted ''Banks led gains.'')"

definition second_inside :: bot where
  "second_inside = inside broken_env demo_cfg first_done ''banks today'' ''Markets rose today.''"

definition second_tweeted :: bot where
  "second_tweeted = snd (post_tweet broken_env second_inside ''Banks led gains.'')"

section \<open>Properties of the cleaner\<close>

lemma re_space_py: "re_space c \<Longrightarrow> py_isspace c"
  by (auto simp: re_space_def py_isspace_def)

lemma punct_not_space: "is_punct c \<Longrightarrow> \<not> re_space c"
  by (auto simp: re_space_def is_punct_def)


lemma fbp_Cons: "fbp (c # cs) = (if re_space c then fbp cs else is_punct c)"
  by (simp add: fbp_def)

lemma sub_punct_match:
  assumes "dropWhile re_space cs = p # rest" and "is_punct p"
  shows "re_sub_punct cs = p # re_sub_punct rest"
proof (cases cs)
  case Nil
  with assms show ?thesis by simp
next
  case (Cons d ds)
  with assms show ?thesis by simp
qed

lemma sub_punct_Cons:
  "re_sub_punct (c # cs) = (if re_space c \<and> fbp cs then re_sub_punct cs else c # re_sub_punct cs)"
proof (cases "re_space c")
  case False
  then show ?thesis by simp
next
  case True
  then have eq: "re_sub_punct (c # cs) =
     (case dropWhile re_space cs of
        [] \<Rightarrow> c # re_sub_punct cs
      | p # rest \<Rightarrow> if is_punct p then p # re_sub_punct rest else c # re_sub_punct cs)"
    by simp
  show ?thesis
  proof (cases "dropWhile re_space cs")
    case Nil
    show ?thesis unfolding eq fbp_def Nil using True by simp
  next
    case (Cons p rest)
    show ?thesis
    proof (cases "is_punct p")
      case False
      show ?thesis unfolding eq fbp_def Cons using True False by simp
    next
      case pp: True
      show ?thesis unfolding eq fbp_def Cons sub_punct_match[OF Cons pp] using True pp by simp
    qed
  qed
qed

declare re_sub_punct.simps(2) [simp del]

lemma fbp_sub_punct: "fbp (re_sub_punct cs) = fbp cs"
proof (induction cs)
  case Nil
  then show ?case by simp
next
  case (Cons c cs)
  then show ?case
    by (auto simp: sub_punct_Cons fbp_Cons)
qed


lemma gapfree_sub_punct: "gapfree (re_sub_punct s)"
  by (induction s) (auto simp: sub_punct_Cons fbp_sub_punct)

lemma gapfree_fixed: "gapfree s \<Longrightarrow> re_sub_punct s = s"
  by (induction s) (auto simp: sub_punct_Cons)

lemma gapfree_dropWhile: "gapfree s \<Longrightarrow> gapfree (dropWhile P s)"
  by (induction s) auto

lemma fbp_Nil: "fbp [] = False"
  by (simp add: fbp_def)

lemma fbp_append: "fbp a \<Longrightarrow> fbp (a @ b)"
  by (induction a) (auto simp: fbp_Cons fbp_Nil split: if_splits)

lemma gapfree_prefix: "gapfree (a @ b) \<Longrightarrow> gapfree a"
  by (induction a) (auto dest: fbp_append)

lemma rstrip_prefix: "rev (dropWhile P (rev s)) @ rev (takeWhile P (rev s)) = s"
  by (metis rev_append rev_rev_ident takeWhile_dropWhile_id)

lemma gapfree_rstrip: "gapfree s \<Longrightarrow> gapfree (rev (dropWhile P (rev s)))"
  using gapfree_prefix[of "rev (dropWhile P (rev s))" "rev (takeWhile P (rev s))"]
  by (simp add: rstrip_prefix)

lemma gapfree_strip: "gapfree s \<Longrightarrow> gapfree (strip s)"
  unfolding strip_def by (intro gapfree_rstrip gapfree_dropWhile)

lemma strip_idem: "strip (strip s) = strip s"
proof -
  let ?t = "dropWhile py_isspace s"
  let ?u = "rev (dropWhile py_isspace (rev ?t))"
  have "dropWhile py_isspace ?u = ?u"
  proof (cases "?u = []")
    case True show ?thesis unfolding True by simp
  next
    case False
    have dec: "?u @ rev (takeWhile py_isspace (rev ?t)) = ?t" by (rule rstrip_prefix)
    with False have ne: "?t \<noteq> []" by (metis append_is_Nil_conv)
    from dec have "hd ?u = hd ?t" using False by (metis hd_append2)
    moreover have "\<not> py_isspace (hd ?t)" using ne by (rule hd_dropWhile)
    ultimately show ?thesis using False by (simp only: dropWhile_eq_self_iff) simp
  qed
  then show ?thesis by (simp add: strip_def)
qed

lemma length_strip: "length (strip s) \<le> length s"
  unfolding strip_def
  by (metis length_dropWhile_le length_rev order_trans)

lemma length_sub_punct: "length (re_sub_punct s) \<le> length s"
  by (induction s) (auto simp: sub_punct_Cons)

lemma dropWhile_Cons_length: "dropWhile P r1 = b # r2 \<Longrightarrow> length r2 < length r1"
  by (metis length_dropWhile_le length_Cons less_eq_Suc_le)

lemma marker_match_length:
  assumes "marker_match body = Some pre"
  shows "length pre < length body"
proof (cases "rev body")
  case Nil
  with assms show ?thesis by (simp add: marker_match_def)
next
  case (Cons c r1)
  then have l1: "length body = Suc (length r1)" by (metis length_Cons length_rev)
  from assms Cons have c: "c = CHR '']''" and
    m: "(case dropWhile re_digit r1 of
               [] \<Rightarrow> None
             | b # r2 \<Rightarrow>
                 if b = CHR ''['' \<and> 1 \<le> length (takeWhile re_digit r1)
                    \<and> length (takeWhile re_digit r1) \<le> 3
                 then Some (rev (dropWhile re_space r2))
                 else None) = Some pre"
    by (auto simp: marker_match_def split: if_splits)
  show ?thesis
  proof (cases "dropWhile re_digit r1")
    case Nil
    with m show ?thesis by (simp only: list.case) simp
  next
    case dc: (Cons b r2)
    from m have "pre = rev (dropWhile re_space r2)"
      unfolding dc by (simp split: if_splits)
    moreover have "length (dropWhile re_space r2) < length r1"
      using dropWhile_Cons_length[OF dc] length_dropWhile_le[of re_space r2] by linarith
    ultimately show ?thesis using l1 by simp
  qed
qed

lemma sub_marker_shrinks: "re_sub_marker s = s \<or> length (re_sub_marker s) < length s"
proof (cases "s \<noteq> [] \<and> last s = CHR 0x0A")
  case True
  then have len: "length (butlast s) < length s" by simp
  show ?thesis
  proof (cases "marker_match (butlast s)")
    case None
    with True show ?thesis by (simp add: re_sub_marker_def)
  next
    case (Some pre)
    from marker_match_length[OF Some] len have "length (pre @ [CHR 0x0A]) < length s + 1" by simp
    moreover have "length (butlast s) + 1 = length s" using True by simp
    ultimately have "length (pre @ [CHR 0x0A]) < length s"
      using marker_match_length[OF Some] by simp
    moreover have "re_sub_marker s = pre @ [CHR 0x0A]"
      using True Some by (simp add: re_sub_marker_def)
    ultimately show ?thesis by simp
  qed
next
  case False
  show ?thesis
  proof (cases "marker_match s")
    case None
    with False show ?thesis by (auto simp add: re_sub_marker_def)
  next
    case (Some pre)
    from marker_match_length[OF Some] False Some show ?thesis
      by (auto simp add: re_sub_marker_def)
  qed
qed

lemma bracket_not_digit: "\<not> re_digit (CHR ''['')"
  by (simp add: re_digit_def)

lemma marker_match_annotation:
  assumes "ds \<noteq> []" and "length ds \<le> 3" and "\<forall>d\<in>set ds. re_digit d"
  shows "marker_match (pre @ [CHR ''[''] @ ds @ [CHR '']'']) = Some (rev (dropWhile re_space (rev pre)))"
proof -
  have t: "takeWhile re_digit (rev ds @ CHR ''['' # rev pre) = rev ds"
    using assms(3) by (subst takeWhile_append2) (auto simp: bracket_not_digit)
  have d: "dropWhile re_digit (rev ds @ CHR ''['' # rev pre) = CHR ''['' # rev pre"
    using assms(3) by (subst dropWhile_append2) (auto simp: bracket_not_digit)
  have l: "1 \<le> length ds" using assms(1) by (cases ds) simp_all
  show ?thesis
    unfolding marker_match_def using assms(2) l by (simp add: t d)
qed

lemma dropWhile_all: "\<forall>c\<in>set ws. P c \<Longrightarrow> dropWhile P ws = []"
  by simp

lemma fbp_spaces: "\<forall>c\<in>set ws. re_space c \<Longrightarrow> fbp ws = False"
  by (simp add: fbp_def dropWhile_all)

lemma fbp_append_spaces: "\<forall>c\<in>set ws. re_space c \<Longrightarrow> fbp (a @ ws) = fbp a"
  by (induction a) (simp_all add: fbp_Cons fbp_spaces fbp_Nil)

lemma sub_punct_spaces: "\<forall>c\<in>set ws. re_space c \<Longrightarrow> re_sub_punct ws = ws"
  by (induction ws) (simp_all add: sub_punct_Cons fbp_spaces)

lemma sub_punct_append_spaces:
  "\<forall>c\<in>set ws. re_space c \<Longrightarrow> re_sub_punct (a @ ws) = re_sub_punct a @ ws"
  by (induction a) (auto simp: sub_punct_Cons fbp_append_spaces sub_punct_spaces)

lemma strip_append_spaces:
  assumes "\<forall>c\<in>set ws. py_isspace c"
  shows "strip (a @ ws) = strip a"
proof (cases "\<forall>c\<in>set a. py_isspace c")
  case True
  then have e1: "dropWhile py_isspace a = []" by (rule dropWhile_all)
  from True assms have e2: "dropWhile py_isspace (a @ ws) = []"
    by (intro dropWhile_all) auto
  show ?thesis unfolding strip_def e1 e2 by simp
next
  case False
  then have e1: "dropWhile py_isspace (a @ ws) = dropWhile py_isspace a @ ws"
    by (auto simp: dropWhile_append1)
  have e2: "dropWhile py_isspace (rev ws @ ys) = dropWhile py_isspace ys" for ys
    using assms by (subst dropWhile_append2) auto
  show ?thesis unfolding strip_def e1 by (simp add: e2)
qed

lemma filter_strip: "filter (\<lambda>c. \<not> py_isspace c) (strip s) = filter (\<lambda>c. \<not> py_isspace c) s"
proof -
  have d: "filter (\<lambda>c. \<not> py_isspace c) (dropWhile py_isspace xs) = filter (\<lambda>c. \<not> py_isspace c) xs" for xs
    by (induction xs) auto
  show ?thesis
    unfolding strip_def by (simp only: rev_filter[symmetric] d rev_rev_ident)
qed

lemma filter_sub_punct:
  "filter (\<lambda>c. \<not> py_isspace c) (re_sub_punct s) = filter (\<lambda>c. \<not> py_isspace c) s"
  by (induction s) (auto simp: sub_punct_Cons dest: re_space_py)

lemma marker_match_long:
  assumes "3 < length ds" and "\<forall>d\<in>set ds. re_digit d"
  shows "marker_match (pre @ [CHR ''[''] @ ds @ [CHR '']'']) = None"
proof -
  have t: "takeWhile re_digit (rev ds @ CHR ''['' # rev pre) = rev ds"
    using assms(2) by (subst takeWhile_append2) (auto simp: bracket_not_digit)
  have d: "dropWhile re_digit (rev ds @ CHR ''['' # rev pre) = CHR ''['' # rev pre"
    using assms(2) by (subst dropWhile_append2) (auto simp: bracket_not_digit)
  show ?thesis
    unfolding marker_match_def using assms(1) by (simp add: t d)
qed

lemma digit_not_space: "re_digit d \<Longrightarrow> \<not> re_space d"
  by (auto simp: re_digit_def re_space_def)

lemma fbp_append_word:
  assumes "\<not> re_space c" and "\<not> is_punct c"
  shows "fbp (a @ c # s) = fbp a"
  using assms by (induction a) (simp_all add: fbp_Cons fbp_Nil)

lemma sub_punct_no_space: "\<forall>c\<in>set s. \<not> re_space c \<Longrightarrow> re_sub_punct s = s"
  by (induction s) (simp_all add: sub_punct_Cons)

lemma sub_punct_append_word:
  assumes "\<not> re_space c" and "\<not> is_punct c"
  shows "re_sub_punct (a @ c # s) = re_sub_punct a @ re_sub_punct (c # s)"
  using assms by (induction a) (simp_all add: sub_punct_Cons fbp_append_word)

lemma strip_keeps_word:
  assumes "s \<noteq> []" and "\<not> py_isspace (hd s)" and "\<not> py_isspace (last s)"
  shows "suffix s (strip (a @ s))"
proof -
  have "\<exists>y. dropWhile py_isspace (a @ s) = y @ s"
  proof (cases "\<forall>c\<in>set a. py_isspace c")
    case True
    then have "dropWhile py_isspace (a @ s) = dropWhile py_isspace s"
      by (simp add: dropWhile_append2)
    also have "\<dots> = s"
      using assms(1,2) by (cases s) simp_all
    finally show ?thesis by simp
  next
    case False
    then have "dropWhile py_isspace (a @ s) = dropWhile py_isspace a @ s"
      by (auto simp: dropWhile_append1)
    then show ?thesis by blast
  qed
  then obtain y where y: "dropWhile py_isspace (a @ s) = y @ s" by blast
  have "rev (y @ s) \<noteq> []" using assms(1) by simp
  moreover have "hd (rev (y @ s)) = last s" using assms(1) by (simp add: hd_rev)
  ultimately have "dropWhile py_isspace (rev (y @ s)) = rev (y @ s)"
    using assms(3) by (simp only: dropWhile_eq_self_iff) simp
  then have "strip (a @ s) = y @ s"
    unfolding strip_def y by simp
  then show ?thesis by (simp add: suffix_def)
qed

subsection \<open>Idempotence\<close>

text \<open>
  Claim C3, as the code has it: cleaning a cleaned text changes it exactly when the
  cleaned text still ends in a bracketed annotation of one to three digits, that is,
  \<open>clean(clean(x)) = clean(x)\<close> if and only if the first substitution leaves
  \<open>clean(x)\<close> as it is. One call removes one trailing annotation.
\<close>

theorem clean_text_idempotent_iff:
  "clean_text (clean_text x) = clean_text x \<longleftrightarrow> re_sub_marker (clean_text x) = clean_text x"
proof -
  let ?y = "clean_text x"
  have g: "gapfree ?y"
    unfolding clean_text_def by (intro gapfree_strip gapfree_sub_punct)
  have s: "strip ?y = ?y"
    unfolding clean_text_def by (rule strip_idem)
  have unf: "clean_text ?y = strip (re_sub_punct (re_sub_marker ?y))"
    using s by (simp add: clean_text_def[of "clean_text x"])
  show ?thesis
  proof
    assume "re_sub_marker ?y = ?y"
    then show "clean_text ?y = ?y"
      using unf gapfree_fixed[OF g] s by simp
  next
    assume fixed: "clean_text ?y = ?y"
    show "re_sub_marker ?y = ?y"
    proof (rule ccontr)
      assume "re_sub_marker ?y \<noteq> ?y"
      then have "length (re_sub_marker ?y) < length ?y"
        using sub_marker_shrinks[of ?y] by simp
      moreover have "length (clean_text ?y) \<le> length (re_sub_marker ?y)"
        unfolding unf using length_strip length_sub_punct order_trans by blast
      ultimately show False
        using fixed by simp
    qed
  qed
qed

text \<open>The theorem at the input \<^verbatim>\<open>"Banks led gains. [87]"\<close>, whose cleaned text has no annotation left.\<close>

theorem clean_text_idempotent_iff_witness:
  "re_sub_marker (clean_text ''Banks led gains. [87]'') = clean_text ''Banks led gains. [87]'' \<and>
   clean_text (clean_text ''Banks led gains. [87]'') = clean_text ''Banks led gains. [87]''"
proof -
  have h: "re_sub_marker (clean_text ''Banks led gains. [87]'') = clean_text ''Banks led gains. [87]''"
    by (simp add: clean_text_def strip_def re_sub_marker_def marker_match_def sub_punct_Cons
        fbp_def py_isspace_def re_space_def re_digit_def is_punct_def)
  from h clean_text_idempotent_iff[of "''Banks led gains. [87]''"] show ?thesis
    by blast
qed

text \<open>
  Claim C3 as the specification states it fails: with two annotations at the end, the
  first call gives \<^verbatim>\<open>"a [1]"\<close> and the second one \<^verbatim>\<open>"a"\<close>.
\<close>

theorem clean_text_not_idempotent:
  "clean_text (clean_text ''a [1] [2]'') \<noteq> clean_text ''a [1] [2]''"
  by (simp add: clean_text_def strip_def re_sub_marker_def marker_match_def sub_punct_Cons fbp_def
      py_isspace_def re_space_def re_digit_def is_punct_def)

subsection \<open>The trailing annotation\<close>

text \<open>
  Claim C4, as the code has it. Let the trimmed text be \<open>pre\<close> followed by a bracketed
  run of digits. With one to three digits, the cleaned text is \<open>pre\<close> with only the
  whitespace treatment applied (whitespace before punctuation and at both ends removed),
  so the annotation and the whitespace before it are gone; and every character of \<open>pre\<close>
  that is not whitespace is kept, in order, so a bracketed numeral inside \<open>pre\<close> stays
  where it is. With four or more digits the annotation is not removed: the cleaned text is
  the whole trimmed text with only the whitespace treatment applied, it still ends with
  the annotation, and every character that is not whitespace is kept.
\<close>

theorem clean_text_removes_annotation:
  assumes "strip T = pre @ [CHR ''[''] @ ds @ [CHR '']'']"
    and "ds \<noteq> []" and "\<forall>d\<in>set ds. re_digit d"
  shows "(length ds \<le> 3 \<longrightarrow>
            clean_text T = strip (re_sub_punct pre) \<and>
            filter (\<lambda>c. \<not> py_isspace c) (clean_text T) = filter (\<lambda>c. \<not> py_isspace c) pre) \<and>
         (3 < length ds \<longrightarrow>
            clean_text T = strip (re_sub_punct (strip T)) \<and>
            suffix ([CHR ''[''] @ ds @ [CHR '']'']) (clean_text T) \<and>
            filter (\<lambda>c. \<not> py_isspace c) (clean_text T) = filter (\<lambda>c. \<not> py_isspace c) (strip T))"
proof (intro conjI impI)
  assume short: "length ds \<le> 3"
  let ?pre' = "rev (dropWhile re_space (rev pre))"
  let ?ws = "rev (takeWhile re_space (rev pre))"
  have dec: "?pre' @ ?ws = pre"
    by (rule rstrip_prefix)
  have ws: "\<forall>c\<in>set ?ws. re_space c"
    by (auto dest: set_takeWhileD)
  then have wsp: "\<forall>c\<in>set ?ws. py_isspace c"
    by (auto dest: re_space_py)
  have "re_sub_marker (strip T) = ?pre'"
    using marker_match_annotation[OF assms(2) short assms(3), of pre]
    by (simp add: re_sub_marker_def assms(1))
  then have c: "clean_text T = strip (re_sub_punct ?pre')"
    by (simp add: clean_text_def)
  have "strip (re_sub_punct pre) = strip (re_sub_punct ?pre' @ ?ws)"
    using sub_punct_append_spaces[OF ws, of ?pre'] dec by simp
  also have "\<dots> = strip (re_sub_punct ?pre')"
    by (rule strip_append_spaces[OF wsp])
  finally show e: "clean_text T = strip (re_sub_punct pre)"
    using c by simp
  then show "filter (\<lambda>c. \<not> py_isspace c) (clean_text T) = filter (\<lambda>c. \<not> py_isspace c) pre"
    by (simp add: filter_strip filter_sub_punct)
next
  assume long: "3 < length ds"
  let ?s = "CHR ''['' # ds @ [CHR '']'']"
  have "re_sub_marker (strip T) = strip T"
    using marker_match_long[OF long assms(3), of pre]
    by (simp add: re_sub_marker_def assms(1))
  then show c: "clean_text T = strip (re_sub_punct (strip T))"
    by (simp add: clean_text_def)
  then show "filter (\<lambda>c. \<not> py_isspace c) (clean_text T) = filter (\<lambda>c. \<not> py_isspace c) (strip T)"
    by (simp add: filter_strip filter_sub_punct)
  have nsp: "\<not> re_space (CHR ''['')" "\<not> is_punct (CHR ''['')"
    by (simp_all add: re_space_def is_punct_def)
  have "\<not> re_space (CHR '']'')"
    by (simp add: re_space_def)
  then have "\<forall>c\<in>set ?s. \<not> re_space c"
    using assms(3) nsp(1) by (auto dest: digit_not_space)
  then have w: "re_sub_punct ?s = ?s"
    by (rule sub_punct_no_space)
  have "re_sub_punct (strip T) = re_sub_punct pre @ ?s"
    using sub_punct_append_word[OF nsp, of pre "ds @ [CHR '']'']"] w by (simp add: assms(1))
  moreover have "suffix ?s (strip (re_sub_punct pre @ ?s))"
    by (rule strip_keeps_word) (simp_all add: py_isspace_def)
  ultimately show "suffix ([CHR ''[''] @ ds @ [CHR '']'']) (clean_text T)"
    using c by simp
qed

text \<open>
  The theorem at a text with an annotation inside and an annotation of three digits at
  the end, and at a text that ends with an annotation of five digits.
\<close>

theorem clean_text_removes_annotation_witness:
  "strip ''Markets rose [7] today . [123]  ''
     = ''Markets rose [7] today . '' @ [CHR ''[''] @ ''123'' @ [CHR '']''] \<and>
   ''123'' \<noteq> [] \<and> length ''123'' \<le> 3 \<and>
   re_digit CHR ''1'' \<and> re_digit CHR ''2'' \<and> re_digit CHR ''3'' \<and>
   clean_text ''Markets rose [7] today . [123]  '' = ''Markets rose [7] today.'' \<and>
   filter (\<lambda>c. \<not> py_isspace c) (clean_text ''Markets rose [7] today . [123]  '')
     = ''Marketsrose[7]today.'' \<and>
   strip ''Index at [7] , up [24850] '' = ''Index at [7] , up '' @ [CHR ''[''] @ ''24850'' @ [CHR '']''] \<and>
   3 < length ''24850'' \<and>
   clean_text ''Index at [7] , up [24850] '' = ''Index at [7], up [24850]'' \<and>
   suffix ([CHR ''[''] @ ''24850'' @ [CHR '']'']) (clean_text ''Index at [7] , up [24850] '')"
proof -
  have h1: "strip ''Markets rose [7] today . [123]  ''
     = ''Markets rose [7] today . '' @ [CHR ''[''] @ ''123'' @ [CHR '']'']"
    by (simp add: strip_def py_isspace_def)
  have h2: "''123'' \<noteq> []" and h3: "length ''123'' \<le> 3"
    by simp_all
  have h4: "\<forall>d\<in>set ''123''. re_digit d"
    by (simp add: re_digit_def)
  from clean_text_removes_annotation[OF h1 h2 h4] h3
  have c: "clean_text ''Markets rose [7] today . [123]  '' = strip (re_sub_punct ''Markets rose [7] today . '')"
    and f: "filter (\<lambda>c. \<not> py_isspace c) (clean_text ''Markets rose [7] today . [123]  '')
          = filter (\<lambda>c. \<not> py_isspace c) ''Markets rose [7] today . ''"
    by blast+
  have a: "strip (re_sub_punct ''Markets rose [7] today . '') = ''Markets rose [7] today.''"
    by (simp add: strip_def sub_punct_Cons fbp_def py_isspace_def re_space_def is_punct_def)
  have b: "filter (\<lambda>c. \<not> py_isspace c) ''Markets rose [7] today . '' = ''Marketsrose[7]today.''"
    by (simp add: py_isspace_def)
  have d: "re_digit CHR ''1''" "re_digit CHR ''2''" "re_digit CHR ''3''"
    by (simp_all add: re_digit_def)
  have k1: "strip ''Index at [7] , up [24850] '' = ''Index at [7] , up '' @ [CHR ''[''] @ ''24850'' @ [CHR '']'']"
    by (simp add: strip_def py_isspace_def)
  have k2: "''24850'' \<noteq> []" and k3: "3 < length ''24850''"
    by simp_all
  have k4: "\<forall>d\<in>set ''24850''. re_digit d"
    by (simp add: re_digit_def)
  from clean_text_removes_annotation[OF k1 k2 k4] k3
  have lc: "clean_text ''Index at [7] , up [24850] '' = strip (re_sub_punct (strip ''Index at [7] , up [24850] ''))"
    and ls: "suffix ([CHR ''[''] @ ''24850'' @ [CHR '']'']) (clean_text ''Index at [7] , up [24850] '')"
    by blast+
  have la: "strip (re_sub_punct (strip ''Index at [7] , up [24850] '')) = ''Index at [7], up [24850]''"
    by (simp add: strip_def sub_punct_Cons fbp_def py_isspace_def re_space_def is_punct_def)
  show ?thesis
    by (intro conjI h1 h2 h3 d trans[OF c a] trans[OF f b] k1 k3 trans[OF lc la] ls)
qed

text \<open>
  Claim C4 as the specification states it fails for an integer of more than three
  digits: the annotation \<^verbatim>\<open>[1234]\<close> at the end of the text is not removed.
\<close>

theorem clean_text_long_annotation:
  "clean_text ''a [1234]'' = ''a [1234]''"
  by (simp add: clean_text_def strip_def re_sub_marker_def marker_match_def sub_punct_Cons fbp_def
      py_isspace_def re_space_def re_digit_def is_punct_def)

section \<open>Properties of the bot\<close>

subsection \<open>The operations, case by case\<close>

lemma log_msg_fields [simp]:
  "cache (log_msg m st) = cache st" "cache_file (log_msg m st) = cache_file st"
  "calls (log_msg m st) = calls st" "logged (log_msg m st) = logged st @ [m]"
  by (simp_all add: log_msg_def)

lemma send_fields [simp]:
  "cache (send r st) = cache st" "cache_file (send r st) = cache_file st"
  "calls (send r st) = calls st @ [r]" "logged (send r st) = logged st"
  by (simp_all add: send_def)

lemma store_fields [simp]:
  "cache (store k v st) = AList.update k v (cache st)"
  "cache_file (store k v st) = save_cache (AList.update k v (cache st))"
  "calls (store k v st) = calls st" "logged (store k v st) = logged st"
  by (simp_all add: store_def Let_def)

lemma cache_get_update:
  "cache_get (AList.update k v c) k' = (if k' = k then (if v = PNone then None else Some v) else cache_get c k')"
  by (simp add: cache_get_def update_conv')

lemma query_grok_hit:
  "cache_get (cache st) (grok_key model p) = Some v \<Longrightarrow>
   query_grok env st p model t = (Inr v, log_msg (GrokCacheHit (take 60 p)) st)"
  by (simp add: query_grok_def)

lemma query_grok_remote_failure:
  "cache_get (cache st) (grok_key model p) = None \<Longrightarrow>
   grok_chat env (calls st) model t p = Inl e \<Longrightarrow>
   query_grok env st p model t = grok_failed e (send (GrokRequest model t p) st)"
  by (simp add: query_grok_def)

lemma query_grok_parse_failure:
  "cache_get (cache st) (grok_key model p) = None \<Longrightarrow>
   grok_chat env (calls st) model t p = Inr chunks \<Longrightarrow>
   literal_eval env (concat chunks) = Inl e \<Longrightarrow>
   query_grok env st p model t = grok_failed e (send (GrokRequest model t p) st)"
  by (simp add: query_grok_def)

lemma query_grok_miss_calls:
  "cache_get (cache st) (grok_key model p) = None \<Longrightarrow>
   calls (snd (query_grok env st p model t)) = calls st @ [GrokRequest model t p]"
  by (simp add: query_grok_def grok_failed_def Let_def split: sum.splits)

lemma post_tweet_hit:
  "cache_get (cache st) (tweet_key text) = Some v \<Longrightarrow>
   post_tweet env st text = (Inr v, log_msg TweetCacheHit st)"
  by (simp add: post_tweet_def)

lemma post_telegram_hit:
  "telegram_api_url cfg = Some url \<Longrightarrow> url \<noteq> [] \<Longrightarrow>
   cache_get (cache st) (telegram_key text) = Some v \<Longrightarrow>
   post_telegram env cfg st text = (Inr v, log_msg TelegramCacheHit st)"
  by (simp add: post_telegram_def)

lemma post_tweet_cached:
  assumes "post_tweet env st text = (Inr r, st1)" and "r \<noteq> PNone"
  shows "cache_get (cache st1) (tweet_key text) = Some r"
  using assms
  by (auto simp: post_tweet_def Let_def cache_get_update split: option.splits sum.splits if_splits)

lemma post_telegram_cached:
  assumes "post_telegram env cfg st text = (Inr r, st1)" and "r \<noteq> PNone"
  shows "cache_get (cache st1) (telegram_key text) = Some r
         \<and> (\<exists>url. telegram_api_url cfg = Some url \<and> url \<noteq> [])"
  using assms
  by (auto simp: post_telegram_def Let_def cache_get_update split: option.splits sum.splits if_splits)

text \<open>No operation removes or overwrites an entry that \<open>cache_get\<close> finds.\<close>

lemma keeps_refl [simp]: "keeps st st"
  by (simp add: keeps_def)

lemma keeps_trans: "keeps a b \<Longrightarrow> keeps b c \<Longrightarrow> keeps a c"
  by (simp add: keeps_def)

lemma keeps_query_grok: "keeps st (snd (query_grok env st p model t))"
  by (auto simp: keeps_def query_grok_def grok_failed_def Let_def cache_get_update
      split: option.splits sum.splits)

lemma keeps_post_tweet: "keeps st (snd (post_tweet env st text))"
  by (auto simp: keeps_def post_tweet_def Let_def cache_get_update
      split: option.splits sum.splits)

lemma keeps_post_telegram: "keeps st (snd (post_telegram env cfg st text))"
  by (auto simp: keeps_def post_telegram_def Let_def cache_get_update
      split: option.splits sum.splits)

lemma keeps_broadcast_loop: "keeps st (snd (broadcast_loop env cfg ps results st))"
proof (induction ps arbitrary: results st)
  case Nil
  show ?case by simp
next
  case (Cons a ps)
  obtain idx para where a: "a = (idx, para)" by (cases a)
  show ?case
  proof (cases para)
    case (PStr ptext)
    obtain r1 st1 where t: "post_tweet env st (clean_text ptext) = (r1, st1)" by force
    have k1: "keeps st st1" using keeps_post_tweet[of st env "clean_text ptext"] t by simp
    show ?thesis
    proof (cases r1)
      case (Inl e)
      with a PStr t k1 show ?thesis by simp
    next
      case (Inr tweet_res)
      obtain r2 st2 where g: "post_telegram env cfg st1 (clean_text ptext) = (r2, st2)" by force
      have k2: "keeps st1 st2" using keeps_post_telegram[of st1 env cfg "clean_text ptext"] g by simp
      show ?thesis
      proof (cases r2)
        case (Inl e)
        with a PStr t Inr g keeps_trans[OF k1 k2] show ?thesis by simp
      next
        case r2: (Inr tel_res)
        have "keeps st2 (snd (broadcast_loop env cfg ps (AList.update idx (result_entry tweet_res tel_res) results) st2))"
          by (rule Cons.IH)
        with keeps_trans[OF k1 k2] have "keeps st (snd (broadcast_loop env cfg ps (AList.update idx (result_entry tweet_res tel_res) results) st2))"
          by (rule keeps_trans)
        with a PStr t Inr g r2 show ?thesis by simp
      qed
    qed
  qed (simp_all add: a)
qed

lemma keeps_process_and_broadcast: "keeps st (snd (process_and_broadcast env cfg st p))"
proof -
  let ?st0 = "log_msg (Processing p) st"
  obtain r st1 where q: "query_grok env ?st0 p ''grok-4'' 0 = (r, st1)" by force
  have k0: "keeps st ?st0" by (simp add: keeps_def)
  have k1: "keeps ?st0 st1" using keeps_query_grok[of ?st0 env p "''grok-4''" 0] q by simp
  have k: "keeps st st1" using k0 k1 by (rule keeps_trans)
  show ?thesis
  proof (cases r)
    case (Inl e)
    with q k show ?thesis by (simp add: process_and_broadcast_def)
  next
    case (Inr paragraphs)
    show ?thesis
    proof (cases paragraphs)
      case (PDict ps)
      have "keeps st1 (snd (broadcast_loop env cfg ps [] st1))" by (rule keeps_broadcast_loop)
      with k have "keeps st (snd (broadcast_loop env cfg ps [] st1))" by (rule keeps_trans)
      with q Inr PDict show ?thesis by (simp add: process_and_broadcast_def)
    qed (use q Inr k in \<open>simp_all add: process_and_broadcast_def\<close>)
  qed
qed

lemma keeps_log_msg: "keeps st (log_msg m st)"
  by (simp add: keeps_def)

lemma later_keeps: "later st st' \<Longrightarrow> keeps st st'"
proof (induction rule: later.induct)
  case (later_refl st)
  show ?case by simp
next
  case (later_log st st1 m)
  then show ?case by (blast intro: keeps_trans keeps_log_msg)
next
  case (later_query st st1 env user_prompt model temperature)
  then show ?case by (blast intro: keeps_trans keeps_query_grok)
next
  case (later_tweet st st1 env ptext)
  then show ?case by (blast intro: keeps_trans keeps_post_tweet)
next
  case (later_telegram st st1 env cfg ptext)
  then show ?case by (blast intro: keeps_trans keeps_post_telegram)
qed

subsection \<open>Evaluation\<close>

text \<open>
  The definitions of the model that a run at a concrete input unfolds; the definitions
  of the scenario are added where a run is evaluated.
\<close>

lemmas eval_defs = query_grok_def post_tweet_def post_telegram_def process_and_broadcast_def
  grok_failed_def grok_key_def tweet_key_def telegram_key_def cache_get_def store_def send_def
  log_msg_def save_cache_def load_cache_def new_bot_def restart_def stateless_env_def Let_def
  result_entry_def message_id_def py_get_def str_int_def str_nat.simps digit_char_def

lemmas clean_defs = clean_text_def strip_def re_sub_marker_def marker_match_def sub_punct_Cons
  fbp_def py_isspace_def re_space_def re_digit_def is_punct_def

lemma clean_demo:
  "clean_text ''Markets rose today. [123]'' = ''Markets rose today.''"
  "clean_text ''Banks led gains. [87]'' = ''Banks led gains.''"
  "clean_text ''Oil fell. [9]'' = ''Oil fell.''"
  by (simp_all add: clean_defs)

subsection \<open>The requests sent only grow\<close>

lemma prefix_post_tweet: "prefix (calls st) (calls (snd (post_tweet env st t)))"
  by (auto simp: post_tweet_def Let_def split: option.splits sum.splits)

lemma prefix_post_telegram: "prefix (calls st) (calls (snd (post_telegram env cfg st t)))"
  by (auto simp: post_telegram_def Let_def split: option.splits sum.splits)

lemma prefix_broadcast_loop: "prefix (calls st) (calls (snd (broadcast_loop env cfg ps results st)))"
proof (induction ps arbitrary: results st)
  case Nil
  show ?case by simp
next
  case (Cons a ps)
  obtain idx para where a: "a = (idx, para)" by (cases a)
  show ?case
  proof (cases para)
    case (PStr ptext)
    obtain r1 st1 where t: "post_tweet env st (clean_text ptext) = (r1, st1)" by force
    have k1: "prefix (calls st) (calls st1)"
      using prefix_post_tweet[of st env "clean_text ptext"] t by simp
    show ?thesis
    proof (cases r1)
      case (Inl e)
      with a PStr t k1 show ?thesis by simp
    next
      case (Inr tweet_res)
      obtain r2 st2 where g: "post_telegram env cfg st1 (clean_text ptext) = (r2, st2)" by force
      have k2: "prefix (calls st1) (calls st2)"
        using prefix_post_telegram[of st1 env cfg "clean_text ptext"] g by simp
      have k12: "prefix (calls st) (calls st2)" using k1 k2 by (rule prefix_order.trans)
      show ?thesis
      proof (cases r2)
        case (Inl e)
        with a PStr t Inr g k12 show ?thesis by simp
      next
        case r2: (Inr tel_res)
        have "prefix (calls st2) (calls (snd (broadcast_loop env cfg ps
                (AList.update idx (result_entry tweet_res tel_res) results) st2)))"
          by (rule Cons.IH)
        with k12 have "prefix (calls st) (calls (snd (broadcast_loop env cfg ps
                (AList.update idx (result_entry tweet_res tel_res) results) st2)))"
          by (rule prefix_order.trans)
        with a PStr t Inr g r2 show ?thesis by simp
      qed
    qed
  qed (simp_all add: a)
qed

lemma prefix_process_and_broadcast_miss:
  assumes "cache_get (cache st) (grok_key ''grok-4'' p) = None"
  shows "prefix (calls st @ [GrokRequest ''grok-4'' 0 p]) (calls (snd (process_and_broadcast env cfg st p)))"
proof -
  let ?st0 = "log_msg (Processing p) st"
  obtain r st1 where q: "query_grok env ?st0 p ''grok-4'' 0 = (r, st1)" by force
  have c1: "calls st1 = calls st @ [GrokRequest ''grok-4'' 0 p]"
    using query_grok_miss_calls[of ?st0 "''grok-4''" p env 0] assms q by simp
  show ?thesis
  proof (cases r)
    case (Inl e)
    with q c1 show ?thesis by (simp add: process_and_broadcast_def)
  next
    case (Inr paragraphs)
    show ?thesis
    proof (cases paragraphs)
      case (PDict ps)
      have "prefix (calls st1) (calls (snd (broadcast_loop env cfg ps [] st1)))"
        by (rule prefix_broadcast_loop)
      with q Inr PDict c1 show ?thesis by (simp add: process_and_broadcast_def)
    qed (use q Inr c1 in \<open>simp_all add: process_and_broadcast_def\<close>)
  qed
qed

subsection \<open>A failed generation\<close>

lemma generation_failure_propagates:
  assumes "generation_fails env st p e"
  shows "process_and_broadcast env cfg st p =
           grok_failed e (send (GrokRequest ''grok-4'' 0 p) (log_msg (Processing p) st))"
proof -
  let ?st0 = "log_msg (Processing p) st"
  from assms have miss: "cache_get (cache ?st0) (grok_key ''grok-4'' p) = None"
    by (simp add: generation_fails_def)
  have "query_grok env ?st0 p ''grok-4'' 0 = grok_failed e (send (GrokRequest ''grok-4'' 0 p) ?st0)"
  proof (cases "grok_chat env (calls st) ''grok-4'' 0 p")
    case (Inl e')
    with assms have "e' = e" by (simp add: generation_fails_def)
    with Inl miss show ?thesis by (simp add: query_grok_remote_failure)
  next
    case (Inr chunks)
    with assms have "literal_eval env (concat chunks) = Inl e" by (simp add: generation_fails_def)
    with Inr miss show ?thesis by (simp add: query_grok_parse_failure)
  qed
  then show ?thesis by (simp add: process_and_broadcast_def grok_failed_def)
qed

subsection \<open>One paragraph, and the loop over all of them\<close>





subsection \<open>The requests of a broadcast\<close>






subsection \<open>Requests that a cached record suppresses\<close>

lemma quiet_query_grok:
  assumes bq: "\<forall>m t p. \<not> bad (GrokRequest m t p)"
  shows "\<exists>n. calls (snd (query_grok env st p model t)) = calls st @ n \<and> (\<forall>q\<in>set n. \<not> bad q)"
proof -
  have "calls (snd (query_grok env st p model t)) = calls st @ []
        \<or> calls (snd (query_grok env st p model t)) = calls st @ [GrokRequest model t p]"
    by (auto simp: query_grok_def grok_failed_def Let_def split: option.splits sum.splits)
  then show ?thesis
    using bq by (metis empty_iff empty_set set_ConsD)
qed

lemma quiet_post_tweet:
  assumes c: "cache_get (cache st) k = Some r"
    and bt: "\<forall>x. bad (TweetRequest x) \<longrightarrow> tweet_key x = k"
  shows "\<exists>n. calls (snd (post_tweet env st x)) = calls st @ n \<and> (\<forall>q\<in>set n. \<not> bad q)"
proof (cases "cache_get (cache st) (tweet_key x)")
  case (Some v)
  then have "calls (snd (post_tweet env st x)) = calls st @ []"
    by (simp add: post_tweet_hit)
  then show ?thesis by (metis empty_iff empty_set)
next
  case None
  then have "calls (snd (post_tweet env st x)) = calls st @ [TweetRequest x]"
    by (auto simp: post_tweet_def Let_def split: sum.splits)
  moreover have "\<not> bad (TweetRequest x)"
    using None c bt by fastforce
  ultimately show ?thesis by (metis empty_iff empty_set set_ConsD)
qed

lemma quiet_post_telegram:
  assumes c: "cache_get (cache st) k = Some r"
    and bg: "\<forall>u ch x. bad (TelegramRequest u ch x) \<longrightarrow> telegram_key x = k"
  shows "\<exists>n. calls (snd (post_telegram env cfg st x)) = calls st @ n \<and> (\<forall>q\<in>set n. \<not> bad q)"
proof (cases "telegram_api_url cfg")
  case None
  then have "calls (snd (post_telegram env cfg st x)) = calls st @ []"
    by (simp add: post_telegram_def)
  then show ?thesis by (metis empty_iff empty_set)
next
  case (Some url)
  show ?thesis
  proof (cases "url = [] \<or> cache_get (cache st) (telegram_key x) \<noteq> None")
    case True
    with Some have "calls (snd (post_telegram env cfg st x)) = calls st @ []"
      by (auto simp: post_telegram_def Let_def)
    then show ?thesis by (metis empty_iff empty_set)
  next
    case False
    with Some have "calls (snd (post_telegram env cfg st x))
        = calls st @ [TelegramRequest url (TELEGRAM_CHAT_ID cfg) x]"
      by (auto simp: post_telegram_def Let_def split: sum.splits)
    moreover have "\<not> bad (TelegramRequest url (TELEGRAM_CHAT_ID cfg) x)"
      using False c bg by fastforce
    ultimately show ?thesis by (metis empty_iff empty_set set_ConsD)
  qed
qed

lemma quiet_broadcast_loop:
  assumes bt: "\<forall>x. bad (TweetRequest x) \<longrightarrow> tweet_key x = k"
    and bg: "\<forall>u ch x. bad (TelegramRequest u ch x) \<longrightarrow> telegram_key x = k"
    and c: "cache_get (cache st) k = Some r"
  shows "\<exists>n. calls (snd (broadcast_loop env cfg ps results st)) = calls st @ n \<and> (\<forall>q\<in>set n. \<not> bad q)"
  using c
proof (induction ps arbitrary: results st)
  case Nil
  have "calls (snd (broadcast_loop env cfg [] results st)) = calls st @ []" by simp
  then show ?case by (metis empty_iff empty_set)
next
  case (Cons a ps)
  obtain idx para where a: "a = (idx, para)" by (cases a)
  show ?case
  proof (cases para)
    case (PStr ptext)
    let ?x = "clean_text ptext"
    obtain r1 st1 where t: "post_tweet env st ?x = (r1, st1)" by force
    from quiet_post_tweet[where bad = bad and env = env and x = ?x, OF Cons.prems bt] t
    obtain n1 where c1: "calls st1 = calls st @ n1" and q1: "\<forall>q\<in>set n1. \<not> bad q"
      by auto
    have k1: "cache_get (cache st1) k = Some r"
      using keeps_post_tweet[of st env ?x] t Cons.prems by (simp add: keeps_def)
    show ?thesis
    proof (cases r1)
      case (Inl e)
      with a PStr t c1 q1 show ?thesis by auto
    next
      case (Inr tweet_res)
      obtain r2 st2 where g: "post_telegram env cfg st1 ?x = (r2, st2)" by force
      from quiet_post_telegram[where bad = bad and env = env and cfg = cfg and x = ?x, OF k1 bg] g
      obtain n2 where c2: "calls st2 = calls st1 @ n2" and q2: "\<forall>q\<in>set n2. \<not> bad q"
        by auto
      have k2: "cache_get (cache st2) k = Some r"
        using keeps_post_telegram[of st1 env cfg ?x] g k1 by (simp add: keeps_def)
      show ?thesis
      proof (cases r2)
        case (Inl e)
        with a PStr t Inr g c1 c2 q1 q2 show ?thesis by auto
      next
        case r2: (Inr tel_res)
        let ?rest = "broadcast_loop env cfg ps (AList.update idx (result_entry tweet_res tel_res) results) st2"
        from Cons.IH[OF k2]
        obtain n where c3: "calls (snd ?rest) = calls st2 @ n" and q3: "\<forall>q\<in>set n. \<not> bad q"
          by blast
        have "calls (snd ?rest) = calls st @ (n1 @ n2 @ n)" using c1 c2 c3 by simp
        moreover have "\<forall>q\<in>set (n1 @ n2 @ n). \<not> bad q" using q1 q2 q3 by auto
        moreover have "broadcast_loop env cfg (a # ps) results st = ?rest"
          by (simp add: a PStr t Inr g r2)
        ultimately show ?thesis by metis
      qed
    qed
  next
    case PNone
    then have "calls (snd (broadcast_loop env cfg (a # ps) results st)) = calls st @ []"
      by (simp add: a)
    then show ?thesis by (metis empty_iff empty_set)
  next
    case (PBool b)
    then have "calls (snd (broadcast_loop env cfg (a # ps) results st)) = calls st @ []"
      by (simp add: a)
    then show ?thesis by (metis empty_iff empty_set)
  next
    case (PInt i)
    then have "calls (snd (broadcast_loop env cfg (a # ps) results st)) = calls st @ []"
      by (simp add: a)
    then show ?thesis by (metis empty_iff empty_set)
  next
    case (PList xs)
    then have "calls (snd (broadcast_loop env cfg (a # ps) results st)) = calls st @ []"
      by (simp add: a)
    then show ?thesis by (metis empty_iff empty_set)
  next
    case (PDict kvs)
    then have "calls (snd (broadcast_loop env cfg (a # ps) results st)) = calls st @ []"
      by (simp add: a)
    then show ?thesis by (metis empty_iff empty_set)
  qed
qed

lemma quiet_process_and_broadcast:
  assumes bq: "\<forall>m t p. \<not> bad (GrokRequest m t p)"
    and bt: "\<forall>x. bad (TweetRequest x) \<longrightarrow> tweet_key x = k"
    and bg: "\<forall>u ch x. bad (TelegramRequest u ch x) \<longrightarrow> telegram_key x = k"
    and c: "cache_get (cache st) k = Some r"
  shows "\<forall>q\<in>set (drop (length (calls st)) (calls (snd (process_and_broadcast env cfg st p)))). \<not> bad q"
proof -
  let ?st0 = "log_msg (Processing p) st"
  obtain r0 st1 where q: "query_grok env ?st0 p ''grok-4'' 0 = (r0, st1)" by force
  from quiet_query_grok[where bad = bad and env = env and st = ?st0 and p = p and model = "''grok-4''" and t = 0] bq q
  obtain n0 where c0: "calls st1 = calls st @ n0" and q0: "\<forall>q\<in>set n0. \<not> bad q"
    by auto
  have k1: "cache_get (cache st1) k = Some r"
    using keeps_query_grok[of ?st0 env p "''grok-4''" 0] q c by (simp add: keeps_def)
  have "\<exists>n. calls (snd (process_and_broadcast env cfg st p)) = calls st @ n \<and> (\<forall>q\<in>set n. \<not> bad q)"
  proof (cases r0)
    case (Inl e)
    with q c0 q0 show ?thesis by (auto simp: process_and_broadcast_def)
  next
    case (Inr paragraphs)
    show ?thesis
    proof (cases paragraphs)
      case (PDict ps)
      from quiet_broadcast_loop[where bad = bad and env = env and cfg = cfg and ps = ps and results = "[]", OF bt bg k1]
      obtain n where "calls (snd (broadcast_loop env cfg ps [] st1)) = calls st1 @ n"
        and "\<forall>q\<in>set n. \<not> bad q"
        by blast
      with c0 q0 have "calls (snd (broadcast_loop env cfg ps [] st1)) = calls st @ (n0 @ n)
          \<and> (\<forall>q\<in>set (n0 @ n). \<not> bad q)"
        by auto
      with q Inr PDict show ?thesis by (auto simp: process_and_broadcast_def)
    qed (use q Inr c0 q0 in \<open>auto simp: process_and_broadcast_def\<close>)
  qed
  then show ?thesis by auto
qed

lemma later_trans: "later b c \<Longrightarrow> later a b \<Longrightarrow> later a c"
  by (induction rule: later.induct) (auto intro: later.intros)

lemma later_broadcast_loop: "later st (snd (broadcast_loop env cfg ps results st))"
proof (induction ps arbitrary: results st)
  case Nil
  show ?case by (simp add: later_refl)
next
  case (Cons a ps)
  obtain idx para where a: "a = (idx, para)" by (cases a)
  show ?case
  proof (cases para)
    case (PStr ptext)
    let ?x = "clean_text ptext"
    obtain r1 st1 where t: "post_tweet env st ?x = (r1, st1)" by force
    have "later st (snd (post_tweet env st ?x))"
      by (rule later_tweet[OF later_refl])
    with t have l1: "later st st1" by simp
    show ?thesis
    proof (cases r1)
      case (Inl e)
      with a PStr t l1 show ?thesis by simp
    next
      case (Inr tweet_res)
      obtain r2 st2 where g: "post_telegram env cfg st1 ?x = (r2, st2)" by force
      have "later st (snd (post_telegram env cfg st1 ?x))"
        by (rule later_telegram[OF l1])
      with g have l2: "later st st2" by simp
      show ?thesis
      proof (cases r2)
        case (Inl e)
        with a PStr t Inr g l2 show ?thesis by simp
      next
        case r2: (Inr tel_res)
        have "later st2 (snd (broadcast_loop env cfg ps
                (AList.update idx (result_entry tweet_res tel_res) results) st2))"
          by (rule Cons.IH)
        then have "later st (snd (broadcast_loop env cfg ps
                (AList.update idx (result_entry tweet_res tel_res) results) st2))"
          using l2 by (rule later_trans)
        with a PStr t Inr g r2 show ?thesis by simp
      qed
    qed
  qed (simp_all add: a later_refl)
qed

lemma later_process_and_broadcast: "later st (snd (process_and_broadcast env cfg st p))"
proof -
  let ?st0 = "log_msg (Processing p) st"
  obtain r st1 where q: "query_grok env ?st0 p ''grok-4'' 0 = (r, st1)" by force
  have "later st (snd (query_grok env ?st0 p ''grok-4'' 0))"
    by (rule later_query[OF later_log[OF later_refl]])
  with q have l: "later st st1" by simp
  show ?thesis
  proof (cases r)
    case (Inl e)
    with q l show ?thesis by (simp add: process_and_broadcast_def)
  next
    case (Inr paragraphs)
    show ?thesis
    proof (cases paragraphs)
      case (PDict ps)
      have "later st1 (snd (broadcast_loop env cfg ps [] st1))" by (rule later_broadcast_loop)
      then have "later st (snd (broadcast_loop env cfg ps [] st1))" using l by (rule later_trans)
      with q Inr PDict show ?thesis by (simp add: process_and_broadcast_def)
    qed (use q Inr l in \<open>simp_all add: process_and_broadcast_def\<close>)
  qed
qed

section \<open>The claims about the bot\<close>

subsection \<open>Generation and the cache\<close>

text \<open>
  Claim C1 at a concrete run. The model answers the prompt with two paragraphs under the
  integer keys 1 and 2; \<open>query_grok\<close> returns them and caches them. After a restart the
  same prompt is a cache hit and no request is sent (the only request is the one of the
  first call), but the value returned has the string keys \<^verbatim>\<open>"1"\<close> and \<^verbatim>\<open>"2"\<close>: the file
  was written by \<^verbatim>\<open>json.dumps\<close>, which turns integer keys into strings. The value is not
  the one that was stored, and not the \<^verbatim>\<open>Dict[int, str]\<close> that the signature of
  \<^verbatim>\<open>_query_grok\<close> announces.
\<close>

theorem query_grok_after_restart:
  "fst (query_grok demo_env (new_bot None [] []) ''sector update'' ''grok-4'' 0)
     = Inr (PDict [(KInt 1, PStr ''Markets rose today. [123]''), (KInt 2, PStr ''Banks led gains. [87]'')]) \<and>
   fst (query_grok demo_env
      (restart (snd (query_grok demo_env (new_bot None [] []) ''sector update'' ''grok-4'' 0)))
      ''sector update'' ''grok-4'' 0)
     = Inr (PDict [(KStr ''1'', PStr ''Markets rose today. [123]''), (KStr ''2'', PStr ''Banks led gains. [87]'')]) \<and>
   calls (snd (query_grok demo_env
      (restart (snd (query_grok demo_env (new_bot None [] []) ''sector update'' ''grok-4'' 0)))
      ''sector update'' ''grok-4'' 0))
     = [GrokRequest ''grok-4'' 0 ''sector update'']"
  by (simp add: eval_defs demo_env_def demo_paragraphs_def tweet_ok_def telegram_ok_def)

text \<open>
  Claim C5, as the code has it. When the prompt is not cached and the request to the
  language model or the parsing of its answer raises \<open>e\<close>, the broadcast raises that
  same exception \<open>e\<close> (the code has no exception class of its own and wraps nothing).
  The log gains the entry of the prompt and, when \<open>e\<close> is an \<^verbatim>\<open>Exception\<close>, the entry of
  the failure written by \<^verbatim>\<open>logger.exception\<close>; an exception that is not one, such as
  \<^verbatim>\<open>KeyboardInterrupt\<close>, passes the clause \<^verbatim>\<open>except Exception\<close> and nothing more is
  logged. The cache and its file are as before, one request was sent, and a further
  broadcast of the same prompt, whatever the collaborators then answer, sends the request
  again.
\<close>

theorem generation_failure:
  assumes "generation_fails env st p e"
  shows "fst (process_and_broadcast env cfg st p) = Inl e \<and>
         logged (snd (process_and_broadcast env cfg st p))
           = logged st @ Processing p # (if is_Exception e then [GrokFailed e] else []) \<and>
         cache (snd (process_and_broadcast env cfg st p)) = cache st \<and>
         cache_file (snd (process_and_broadcast env cfg st p)) = cache_file st \<and>
         calls (snd (process_and_broadcast env cfg st p)) = calls st @ [GrokRequest ''grok-4'' 0 p] \<and>
         prefix (calls (snd (process_and_broadcast env cfg st p)) @ [GrokRequest ''grok-4'' 0 p])
           (calls (snd (process_and_broadcast env' cfg' (snd (process_and_broadcast env cfg st p)) p)))"
proof -
  let ?st' = "snd (process_and_broadcast env cfg st p)"
  have eq: "process_and_broadcast env cfg st p =
           grok_failed e (send (GrokRequest ''grok-4'' 0 p) (log_msg (Processing p) st))"
    using assms by (rule generation_failure_propagates)
  have c: "cache ?st' = cache st" and f: "cache_file ?st' = cache_file st"
    and k: "calls ?st' = calls st @ [GrokRequest ''grok-4'' 0 p]"
    and r: "fst (process_and_broadcast env cfg st p) = Inl e"
    and l: "logged ?st' = logged st @ Processing p # (if is_Exception e then [GrokFailed e] else [])"
    unfolding eq by (simp_all add: grok_failed_def)
  from assms c have "cache_get (cache ?st') (grok_key ''grok-4'' p) = None"
    by (simp add: generation_fails_def)
  then have "prefix (calls ?st' @ [GrokRequest ''grok-4'' 0 p])
           (calls (snd (process_and_broadcast env' cfg' ?st' p)))"
    by (rule prefix_process_and_broadcast_miss)
  with c f k r l show ?thesis by blast
qed

text \<open>
  The theorem at the prompt \<^verbatim>\<open>"sector update"\<close>, with an answer of the model that does
  not parse: the \<^verbatim>\<open>ValueError\<close> is raised and logged.
\<close>

theorem generation_failure_witness:
  "generation_fails malformed_env (new_bot None [] []) ''sector update''
     (PyException ''ValueError'' ''malformed node or string'') \<and>
   fst (process_and_broadcast malformed_env demo_cfg (new_bot None [] []) ''sector update'')
     = Inl (PyException ''ValueError'' ''malformed node or string'') \<and>
   logged (snd (process_and_broadcast malformed_env demo_cfg (new_bot None [] []) ''sector update''))
     = [Processing ''sector update'', GrokFailed (PyException ''ValueError'' ''malformed node or string'')] \<and>
   cache (snd (process_and_broadcast malformed_env demo_cfg (new_bot None [] []) ''sector update'')) = [] \<and>
   cache_file (snd (process_and_broadcast malformed_env demo_cfg (new_bot None [] []) ''sector update''))
     = Some [] \<and>
   calls (snd (process_and_broadcast malformed_env demo_cfg (new_bot None [] []) ''sector update''))
     = [GrokRequest ''grok-4'' 0 ''sector update''] \<and>
   prefix [GrokRequest ''grok-4'' 0 ''sector update'', GrokRequest ''grok-4'' 0 ''sector update'']
     (calls (snd (process_and_broadcast demo_env demo_cfg
        (snd (process_and_broadcast malformed_env demo_cfg (new_bot None [] []) ''sector update''))
        ''sector update'')))"
proof -
  let ?st = "new_bot None [] []"
  have st: "cache ?st = []" "cache_file ?st = Some []" "calls ?st = []" "logged ?st = []"
    by (simp_all add: new_bot_def load_cache_def)
  have h: "generation_fails malformed_env ?st ''sector update''
             (PyException ''ValueError'' ''malformed node or string'')"
    by (simp add: generation_fails_def eval_defs malformed_env_def tweet_ok_def telegram_ok_def)
  note g = generation_failure[OF h, of demo_cfg demo_env demo_cfg]
  from g have c1: "fst (process_and_broadcast malformed_env demo_cfg ?st ''sector update'')
             = Inl (PyException ''ValueError'' ''malformed node or string'')"
    by blast
  from g have c0: "logged (snd (process_and_broadcast malformed_env demo_cfg ?st ''sector update''))
     = [Processing ''sector update'', GrokFailed (PyException ''ValueError'' ''malformed node or string'')]"
    by (simp add: st)
  from g have c2: "cache (snd (process_and_broadcast malformed_env demo_cfg ?st ''sector update'')) = []"
    by (simp add: st)
  from g have c3: "cache_file (snd (process_and_broadcast malformed_env demo_cfg ?st ''sector update'')) = Some []"
    by (simp add: st)
  from g have c4: "calls (snd (process_and_broadcast malformed_env demo_cfg ?st ''sector update''))
       = [GrokRequest ''grok-4'' 0 ''sector update'']"
    by (simp add: st)
  from g have "prefix (calls (snd (process_and_broadcast malformed_env demo_cfg ?st ''sector update''))
         @ [GrokRequest ''grok-4'' 0 ''sector update''])
       (calls (snd (process_and_broadcast demo_env demo_cfg
          (snd (process_and_broadcast malformed_env demo_cfg ?st ''sector update'')) ''sector update'')))"
    by blast
  then have c5: "prefix [GrokRequest ''grok-4'' 0 ''sector update'', GrokRequest ''grok-4'' 0 ''sector update'']
       (calls (snd (process_and_broadcast demo_env demo_cfg
          (snd (process_and_broadcast malformed_env demo_cfg ?st ''sector update'')) ''sector update'')))"
    unfolding c4 by simp
  show ?thesis
    by (intro conjI h c1 c0 c2 c3 c4 c5)
qed

text \<open>
  Claim C5 as the specification states it fails: the error raised is the
  \<^verbatim>\<open>ValueError\<close> of \<^verbatim>\<open>ast.literal_eval\<close>, not a \<^verbatim>\<open>GenerationError\<close> that carries the raw answer
  \<^verbatim>\<open>{1: unquoted}\<close>.
\<close>

theorem generation_error_example:
  "fst (query_grok malformed_env (new_bot None [] []) ''sector update'' ''grok-4'' 0)
     = Inl (PyException ''ValueError'' ''malformed node or string'') \<and>
   fst (query_grok malformed_env (new_bot None [] []) ''sector update'' ''grok-4'' 0)
     \<noteq> Inl (PyException ''GenerationError'' ''{1: unquoted}'')"
  by (simp add: eval_defs malformed_env_def tweet_ok_def telegram_ok_def)

subsection \<open>Publishing\<close>

text \<open>
  Claim C2. When a post of the text \<open>T\<close> to a channel has returned a record \<open>r\<close> (so it
  succeeded and \<open>r\<close> is in the cache), then in every state \<open>st2\<close> that the bot reaches
  later, by any sequence of log entries, generations and posts of any texts to either
  channel (\<open>later\<close>: such are the states inside a broadcast and after whole broadcasts of
  any prompts, lemmas \<open>later_broadcast_loop\<close> and \<open>later_process_and_broadcast\<close>), a post of
  \<open>T\<close> to that channel returns \<open>r\<close> and sends no request, whatever the collaborators would
  answer; and a whole broadcast started in \<open>st2\<close>, of any prompt and with any
  collaborators, sends no request that posts \<open>T\<close> to that channel, whichever paragraph
  of it is cleaned to \<open>T\<close>.
\<close>

theorem publish_dedup:
  "(post_tweet env st T = (Inr r, st1) \<and> r \<noteq> PNone \<and> later st1 st2 \<longrightarrow>
      post_tweet env' st2 T = (Inr r, log_msg TweetCacheHit st2) \<and>
      calls (snd (post_tweet env' st2 T)) = calls st2 \<and>
      TweetRequest T \<notin> set (drop (length (calls st2))
                              (calls (snd (process_and_broadcast env' cfg' st2 p))))) \<and>
   (post_telegram env cfg st T = (Inr r, st1) \<and> r \<noteq> PNone \<and> later st1 st2 \<longrightarrow>
      post_telegram env' cfg st2 T = (Inr r, log_msg TelegramCacheHit st2) \<and>
      calls (snd (post_telegram env' cfg st2 T)) = calls st2 \<and>
      (\<forall>u ch. TelegramRequest u ch T \<notin> set (drop (length (calls st2))
                              (calls (snd (process_and_broadcast env' cfg' st2 p))))))"
proof (intro conjI impI allI)
  assume a: "post_tweet env st T = (Inr r, st1) \<and> r \<noteq> PNone \<and> later st1 st2"
  then have "cache_get (cache st1) (tweet_key T) = Some r"
    using post_tweet_cached by blast
  moreover from a have "keeps st1 st2"
    using later_keeps by blast
  ultimately have c: "cache_get (cache st2) (tweet_key T) = Some r"
    by (simp add: keeps_def)
  then show "post_tweet env' st2 T = (Inr r, log_msg TweetCacheHit st2)"
    by (rule post_tweet_hit)
  then show "calls (snd (post_tweet env' st2 T)) = calls st2"
    by simp
  have "\<forall>q\<in>set (drop (length (calls st2)) (calls (snd (process_and_broadcast env' cfg' st2 p)))).
          \<not> (q = TweetRequest T)"
    by (rule quiet_process_and_broadcast[where k = "tweet_key T" and r = r]) (simp_all add: c)
  then show "TweetRequest T \<notin> set (drop (length (calls st2))
                              (calls (snd (process_and_broadcast env' cfg' st2 p))))"
    by blast
next
  assume a: "post_telegram env cfg st T = (Inr r, st1) \<and> r \<noteq> PNone \<and> later st1 st2"
  then obtain url where c1: "cache_get (cache st1) (telegram_key T) = Some r"
    and u: "telegram_api_url cfg = Some url" "url \<noteq> []"
    using post_telegram_cached by blast
  from a have "keeps st1 st2"
    using later_keeps by blast
  with c1 have c: "cache_get (cache st2) (telegram_key T) = Some r"
    by (simp add: keeps_def)
  with u show "post_telegram env' cfg st2 T = (Inr r, log_msg TelegramCacheHit st2)"
    by (simp add: post_telegram_hit)
  then show "calls (snd (post_telegram env' cfg st2 T)) = calls st2"
    by simp
  have q: "\<forall>q\<in>set (drop (length (calls st2)) (calls (snd (process_and_broadcast env' cfg' st2 p)))).
          \<not> (\<exists>u ch. q = TelegramRequest u ch T)"
    by (rule quiet_process_and_broadcast[where k = "telegram_key T" and r = r]) (auto simp: c)
  fix u ch
  from q show "TelegramRequest u ch T \<notin> set (drop (length (calls st2))
                              (calls (snd (process_and_broadcast env' cfg' st2 p))))"
    by blast
qed

text \<open>
  The theorem in two broadcasts. The first, of the prompt \<^verbatim>\<open>"sector update"\<close>, posts
  \<^verbatim>\<open>"Banks led gains."\<close> as its paragraph 2, to both channels. The second, of the prompt
  \<^verbatim>\<open>"banks today"\<close>, has three paragraphs, of which paragraph 2 is cleaned to the same
  text, and the connection to the primary channel is now broken for this text. Inside the
  second broadcast, when its paragraph 1 is done, the post of the text to the primary
  channel returns the record of the first broadcast and sends nothing, and so does then the
  post to the secondary channel. The second broadcast as a whole sends the request of the
  generation and the two posts of paragraph 3, and its entry for paragraph 2 holds the two
  records of the first broadcast.
\<close>

theorem publish_dedup_witness:
  "post_tweet demo_env first_inside ''Banks led gains.''
     = (Inr (PDict [(KStr ''id'', PStr ''1''), (KStr ''text'', PStr ''Banks led gains.'')]), first_tweeted) \<and>
   PDict [(KStr ''id'', PStr ''1''), (KStr ''text'', PStr ''Banks led gains.'')] \<noteq> PNone \<and>
   post_telegram demo_env demo_cfg first_tweeted ''Banks led gains.''
     = (Inr (PDict [(KStr ''ok'', PBool True), (KStr ''result'', PDict [(KStr ''message_id'', PInt 7)])]),
        first_done) \<and>
   PDict [(KStr ''ok'', PBool True), (KStr ''result'', PDict [(KStr ''message_id'', PInt 7)])] \<noteq> PNone \<and>
   first_done = snd (process_and_broadcast demo_env demo_cfg (new_bot None [] []) ''sector update'') \<and>
   later first_tweeted second_inside \<and>
   later first_done second_tweeted \<and>
   later first_tweeted first_done \<and>
   fst (post_tweet broken_env second_inside ''Banks led gains.'')
     = Inr (PDict [(KStr ''id'', PStr ''1''), (KStr ''text'', PStr ''Banks led gains.'')]) \<and>
   calls (snd (post_tweet broken_env second_inside ''Banks led gains.'')) = calls second_inside \<and>
   fst (post_telegram broken_env demo_cfg second_tweeted ''Banks led gains.'')
     = Inr (PDict [(KStr ''ok'', PBool True), (KStr ''result'', PDict [(KStr ''message_id'', PInt 7)])]) \<and>
   calls (snd (post_telegram broken_env demo_cfg second_tweeted ''Banks led gains.'')) = calls second_tweeted \<and>
   TweetRequest ''Banks led gains.''
     \<notin> set (drop (length (calls first_done))
          (calls (snd (process_and_broadcast broken_env demo_cfg first_done ''banks today'')))) \<and>
   (\<forall>u ch. TelegramRequest u ch ''Banks led gains.''
     \<notin> set (drop (length (calls first_done))
          (calls (snd (process_and_broadcast broken_env demo_cfg first_done ''banks today''))))) \<and>
   drop (length (calls first_done))
     (calls (snd (process_and_broadcast broken_env demo_cfg first_done ''banks today'')))
     = [GrokRequest ''grok-4'' 0 ''banks today'', TweetRequest ''Oil fell.'',
        TelegramRequest ''https://api.telegram.org/bot1/sendMessage'' (Some ''42'') ''Oil fell.''] \<and>
   fst (process_and_broadcast broken_env demo_cfg first_done ''banks today'')
     = Inr (PDict
         [(KInt 1, PDict [(KStr ''tweet'', PDict [(KStr ''id'', PStr ''1''), (KStr ''text'', PStr ''Markets rose today.'')]),
                          (KStr ''telegram'', PDict [(KStr ''ok'', PBool True),
                             (KStr ''result'', PDict [(KStr ''message_id'', PInt 7)])])]),
          (KInt 2, PDict [(KStr ''tweet'', PDict [(KStr ''id'', PStr ''1''), (KStr ''text'', PStr ''Banks led gains.'')]),
                          (KStr ''telegram'', PDict [(KStr ''ok'', PBool True),
                             (KStr ''result'', PDict [(KStr ''message_id'', PInt 7)])])]),
          (KInt 3, PDict [(KStr ''tweet'', PDict [(KStr ''id'', PStr ''1''), (KStr ''text'', PStr ''Oil fell.'')]),
                          (KStr ''telegram'', PDict [(KStr ''ok'', PBool True),
                             (KStr ''result'', PDict [(KStr ''message_id'', PInt 7)])])])])"
proof -
  let ?B = "''Banks led gains.''"
  let ?r = "PDict [(KStr ''id'', PStr ''1''), (KStr ''text'', PStr ?B)]"
  let ?g = "PDict [(KStr ''ok'', PBool True), (KStr ''result'', PDict [(KStr ''message_id'', PInt 7)])]"
  let ?second = "process_and_broadcast broken_env demo_cfg first_done ''banks today''"
  have "fst (post_tweet demo_env first_inside ?B) = Inr ?r"
    by (simp add: first_inside_def first_tweeted_def first_done_def second_inside_def
        second_tweeted_def inside_def eval_defs demo_env_def demo_cfg_def demo_paragraphs_def
        tweet_ok_def telegram_ok_def)
  then have h1: "post_tweet demo_env first_inside ?B = (Inr ?r, first_tweeted)"
    unfolding first_tweeted_def by (metis prod.collapse)
  have "fst (post_telegram demo_env demo_cfg first_tweeted ?B) = Inr ?g"
    by (simp add: first_inside_def first_tweeted_def first_done_def second_inside_def
        second_tweeted_def inside_def eval_defs demo_env_def demo_cfg_def demo_paragraphs_def
        tweet_ok_def telegram_ok_def)
  then have g1: "post_telegram demo_env demo_cfg first_tweeted ?B = (Inr ?g, first_done)"
    unfolding first_done_def by (metis prod.collapse)
  have e: "first_done = snd (process_and_broadcast demo_env demo_cfg (new_bot None [] []) ''sector update'')"
    by (simp add: first_inside_def first_tweeted_def first_done_def second_inside_def
        second_tweeted_def inside_def eval_defs demo_env_def demo_cfg_def demo_paragraphs_def
        tweet_ok_def telegram_ok_def clean_demo)
  have l0: "later first_tweeted first_done"
    unfolding first_done_def by (rule later_telegram[OF later_refl])
  have l1: "later first_done second_inside"
    unfolding second_inside_def inside_def
    by (rule later_telegram[OF later_tweet[OF later_query[OF later_log[OF later_refl]]]])
  have h3: "later first_tweeted second_inside"
    using l1 l0 by (rule later_trans)
  have g3: "later first_done second_tweeted"
    unfolding second_tweeted_def by (rule later_tweet[OF l1])
  have h2: "?r \<noteq> PNone" and g2: "?g \<noteq> PNone"
    by simp_all
  note tw = publish_dedup[where env = demo_env and st = first_inside and T = ?B and r = ?r
      and ?st1.0 = first_tweeted and env' = broken_env and cfg' = demo_cfg and p = "''banks today''"]
  note tg = publish_dedup[where env = demo_env and cfg = demo_cfg and st = first_tweeted and T = ?B
      and r = ?g and ?st1.0 = first_done and env' = broken_env and cfg' = demo_cfg
      and p = "''banks today''"]
  from tw[where ?st2.0 = second_inside] h1 h2 h3
  have t1: "post_tweet broken_env second_inside ?B = (Inr ?r, log_msg TweetCacheHit second_inside)"
    and t2: "calls (snd (post_tweet broken_env second_inside ?B)) = calls second_inside"
    by blast+
  from tw[where ?st2.0 = first_done] h1 h2 l0
  have t3: "TweetRequest ?B \<notin> set (drop (length (calls first_done)) (calls (snd ?second)))"
    by blast
  from tg[where ?st2.0 = second_tweeted] g1 g2 g3
  have m1: "post_telegram broken_env demo_cfg second_tweeted ?B
              = (Inr ?g, log_msg TelegramCacheHit second_tweeted)"
    and m2: "calls (snd (post_telegram broken_env demo_cfg second_tweeted ?B)) = calls second_tweeted"
    by blast+
  from tg[where ?st2.0 = first_done] g1 g2 later_refl
  have m3: "\<forall>u ch. TelegramRequest u ch ?B
              \<notin> set (drop (length (calls first_done)) (calls (snd ?second)))"
    by blast
  from t1 have t1': "fst (post_tweet broken_env second_inside ?B) = Inr ?r" by simp
  from m1 have m1': "fst (post_telegram broken_env demo_cfg second_tweeted ?B) = Inr ?g" by simp
  have v: "drop (length (calls first_done)) (calls (snd ?second))
     = [GrokRequest ''grok-4'' 0 ''banks today'', TweetRequest ''Oil fell.'',
        TelegramRequest ''https://api.telegram.org/bot1/sendMessage'' (Some ''42'') ''Oil fell.'']"
    by (simp add: first_inside_def first_tweeted_def first_done_def second_inside_def
        second_tweeted_def inside_def eval_defs demo_env_def demo_cfg_def demo_paragraphs_def
        tweet_ok_def telegram_ok_def broken_env_def broken_tweet_def three_paragraphs_def clean_demo)
  have res: "fst ?second
     = Inr (PDict
         [(KInt 1, PDict [(KStr ''tweet'', PDict [(KStr ''id'', PStr ''1''), (KStr ''text'', PStr ''Markets rose today.'')]),
                          (KStr ''telegram'', PDict [(KStr ''ok'', PBool True),
                             (KStr ''result'', PDict [(KStr ''message_id'', PInt 7)])])]),
          (KInt 2, PDict [(KStr ''tweet'', ?r), (KStr ''telegram'', ?g)]),
          (KInt 3, PDict [(KStr ''tweet'', PDict [(KStr ''id'', PStr ''1''), (KStr ''text'', PStr ''Oil fell.'')]),
                          (KStr ''telegram'', PDict [(KStr ''ok'', PBool True),
                             (KStr ''result'', PDict [(KStr ''message_id'', PInt 7)])])])])"
    by (simp add: first_inside_def first_tweeted_def first_done_def inside_def eval_defs
        demo_env_def demo_cfg_def demo_paragraphs_def tweet_ok_def telegram_ok_def broken_env_def
        broken_tweet_def three_paragraphs_def clean_demo)
  show ?thesis
    by (intro conjI h1 h2 g1 g2 e h3 g3 l0 t1' t2 m1' m2 t3 m3 v res)
qed

text \<open>
  Claim C6 at a concrete run. The connection of the primary channel breaks:
  \<^verbatim>\<open>create_tweet\<close> raises \<^verbatim>\<open>requests.exceptions.ConnectionError\<close>, which is not a
  \<^verbatim>\<open>tweepy.TweepyException\<close>. \<open>post_tweet\<close> raises it to its caller and logs nothing;
  \<open>post_telegram\<close> catches every \<^verbatim>\<open>Exception\<close>.
\<close>

theorem post_tweet_raises_connection_error:
  "post_tweet broken_env (new_bot None [] []) ''Banks led gains.''
     = (Inl (PyException ''ConnectionError'' ''Connection aborted.''),
        \<lparr>cache = [], cache_file = Some [], calls = [TweetRequest ''Banks led gains.''], logged = []\<rparr>)"
  by (simp add: eval_defs
      broken_env_def broken_tweet_def three_paragraphs_def tweet_ok_def telegram_ok_def)

text \<open>
  Claim C10. A post that misses the cache and whose request raises leaves the cache and
  its file as they were, and a second post of the same text sends the request again. The
  first post returns \<^verbatim>\<open>None\<close> when the exception is one that the operation catches.
\<close>

theorem failed_publish_not_cached:
  "(cache_get (cache st) (tweet_key T) = None \<and> create_tweet env (calls st) T = Inl e \<longrightarrow>
      fst (post_tweet env st T) = (if is_TweepyException e then Inr PNone else Inl e) \<and>
      cache (snd (post_tweet env st T)) = cache st \<and>
      cache_file (snd (post_tweet env st T)) = cache_file st \<and>
      calls (snd (post_tweet env' (snd (post_tweet env st T)) T))
        = calls st @ [TweetRequest T, TweetRequest T]) \<and>
   (telegram_api_url cfg = Some url \<and> url \<noteq> [] \<and>
    cache_get (cache st) (telegram_key T) = None \<and>
    requests_post env (calls st) url (TELEGRAM_CHAT_ID cfg) T = Inl e \<longrightarrow>
      fst (post_telegram env cfg st T) = (if is_Exception e then Inr PNone else Inl e) \<and>
      cache (snd (post_telegram env cfg st T)) = cache st \<and>
      cache_file (snd (post_telegram env cfg st T)) = cache_file st \<and>
      calls (snd (post_telegram env' cfg (snd (post_telegram env cfg st T)) T))
        = calls st @ [TelegramRequest url (TELEGRAM_CHAT_ID cfg) T,
                      TelegramRequest url (TELEGRAM_CHAT_ID cfg) T])"
proof (intro conjI impI)
  assume a: "cache_get (cache st) (tweet_key T) = None \<and> create_tweet env (calls st) T = Inl e"
  let ?st' = "snd (post_tweet env st T)"
  from a have eq: "post_tweet env st T =
      (if is_TweepyException e then (Inr PNone, log_msg (TweetFailed e) (send (TweetRequest T) st))
       else (Inl e, send (TweetRequest T) st))"
    by (simp add: post_tweet_def)
  show "fst (post_tweet env st T) = (if is_TweepyException e then Inr PNone else Inl e)"
    unfolding eq by simp
  show c: "cache ?st' = cache st" unfolding eq by simp
  show "cache_file ?st' = cache_file st" unfolding eq by simp
  have k: "calls ?st' = calls st @ [TweetRequest T]" unfolding eq by simp
  from a c have "cache_get (cache ?st') (tweet_key T) = None" by simp
  then have "calls (snd (post_tweet env' ?st' T)) = calls ?st' @ [TweetRequest T]"
    by (simp add: post_tweet_def Let_def split: sum.splits)
  with k show "calls (snd (post_tweet env' ?st' T)) = calls st @ [TweetRequest T, TweetRequest T]"
    by simp
next
  assume a: "telegram_api_url cfg = Some url \<and> url \<noteq> [] \<and>
    cache_get (cache st) (telegram_key T) = None \<and>
    requests_post env (calls st) url (TELEGRAM_CHAT_ID cfg) T = Inl e"
  let ?st' = "snd (post_telegram env cfg st T)"
  let ?rq = "TelegramRequest url (TELEGRAM_CHAT_ID cfg) T"
  from a have eq: "post_telegram env cfg st T =
      (if is_Exception e then (Inr PNone, log_msg (TelegramFailed e) (send ?rq st))
       else (Inl e, send ?rq st))"
    by (simp add: post_telegram_def)
  show "fst (post_telegram env cfg st T) = (if is_Exception e then Inr PNone else Inl e)"
    unfolding eq by simp
  show c: "cache ?st' = cache st" unfolding eq by simp
  show "cache_file ?st' = cache_file st" unfolding eq by simp
  have k: "calls ?st' = calls st @ [?rq]" unfolding eq by simp
  from a c have "cache_get (cache ?st') (telegram_key T) = None" by simp
  with a have "calls (snd (post_telegram env' cfg ?st' T)) = calls ?st' @ [?rq]"
    by (simp add: post_telegram_def Let_def split: sum.splits)
  with k show "calls (snd (post_telegram env' cfg ?st' T)) = calls st @ [?rq, ?rq]"
    by simp
qed

text \<open>
  The theorem at the text \<^verbatim>\<open>"Banks led gains."\<close>, with both services refusing it.
\<close>

theorem failed_publish_not_cached_witness:
  "cache_get (cache (new_bot None [] [])) (tweet_key ''Banks led gains.'') = None \<and>
   create_tweet failing_env (calls (new_bot None [] [])) ''Banks led gains.'' = Inl (TweepyException ''403 Forbidden'') \<and>
   fst (post_tweet failing_env (new_bot None [] []) ''Banks led gains.'') = Inr PNone \<and>
   cache (snd (post_tweet failing_env (new_bot None [] []) ''Banks led gains.'')) = [] \<and>
   cache_file (snd (post_tweet failing_env (new_bot None [] []) ''Banks led gains.'')) = Some [] \<and>
   calls (snd (post_tweet demo_env (snd (post_tweet failing_env (new_bot None [] []) ''Banks led gains.''))
            ''Banks led gains.''))
     = [TweetRequest ''Banks led gains.'', TweetRequest ''Banks led gains.''] \<and>
   requests_post failing_env (calls (new_bot None [] [])) ''https://api.telegram.org/bot1/sendMessage''
       (TELEGRAM_CHAT_ID demo_cfg) ''Banks led gains.'' = Inl (PyException ''HTTPError'' ''502 Server Error'') \<and>
   fst (post_telegram failing_env demo_cfg (new_bot None [] []) ''Banks led gains.'') = Inr PNone \<and>
   cache (snd (post_telegram failing_env demo_cfg (new_bot None [] []) ''Banks led gains.'')) = [] \<and>
   calls (snd (post_telegram demo_env demo_cfg
            (snd (post_telegram failing_env demo_cfg (new_bot None [] []) ''Banks led gains.''))
            ''Banks led gains.''))
     = [TelegramRequest ''https://api.telegram.org/bot1/sendMessage'' (Some ''42'') ''Banks led gains.'',
        TelegramRequest ''https://api.telegram.org/bot1/sendMessage'' (Some ''42'') ''Banks led gains.'']"
proof -
  let ?st = "new_bot None [] []"
  let ?T = "''Banks led gains.''"
  let ?url = "''https://api.telegram.org/bot1/sendMessage''"
  have st: "cache ?st = []" "cache_file ?st = Some []" "calls ?st = []"
    by (simp_all add: new_bot_def load_cache_def)
  have h1: "cache_get (cache ?st) (tweet_key ?T) = None"
    by (simp add: st cache_get_def)
  have h2: "create_tweet failing_env (calls ?st) ?T = Inl (TweepyException ''403 Forbidden'')"
    by (simp add: failing_env_def stateless_env_def)
  have g0: "telegram_api_url demo_cfg = Some ?url" "?url \<noteq> []"
    and g00: "TELEGRAM_CHAT_ID demo_cfg = Some ''42''"
    by (simp_all add: demo_cfg_def)
  have g1: "cache_get (cache ?st) (telegram_key ?T) = None"
    by (simp add: st cache_get_def)
  have g2: "requests_post failing_env (calls ?st) ?url (TELEGRAM_CHAT_ID demo_cfg) ?T
              = Inl (PyException ''HTTPError'' ''502 Server Error'')"
    by (simp add: failing_env_def stateless_env_def)
  note inst = failed_publish_not_cached[where env = failing_env and st = ?st and T = ?T
      and env' = demo_env and cfg = demo_cfg and url = ?url]
  from inst[where e = "TweepyException ''403 Forbidden''"] h1 h2
  have t1: "fst (post_tweet failing_env ?st ?T) = Inr PNone"
    and t2: "cache (snd (post_tweet failing_env ?st ?T)) = []"
    and t3: "cache_file (snd (post_tweet failing_env ?st ?T)) = Some []"
    and t4: "calls (snd (post_tweet demo_env (snd (post_tweet failing_env ?st ?T)) ?T))
               = [TweetRequest ?T, TweetRequest ?T]"
    by (simp_all add: st)
  from inst[where e = "PyException ''HTTPError'' ''502 Server Error''"] g0 g1 g2
  have m1: "fst (post_telegram failing_env demo_cfg ?st ?T) = Inr PNone"
    and m2: "cache (snd (post_telegram failing_env demo_cfg ?st ?T)) = []"
    and m4: "calls (snd (post_telegram demo_env demo_cfg (snd (post_telegram failing_env demo_cfg ?st ?T)) ?T))
               = [TelegramRequest ?url (Some ''42'') ?T, TelegramRequest ?url (Some ''42'') ?T]"
    by (simp_all add: st g00)
  show ?thesis
    by (intro conjI h1 h2 t1 t2 t3 t4 g2 m1 m2 m4)
qed

subsection \<open>The broadcast\<close>

text \<open>
  Claim C7 at a concrete run. Of three paragraphs the second cannot be posted to the
  primary channel, because the connection breaks. The broadcast raises the exception; the
  third paragraph is never posted to any channel, and no result mapping is returned.
\<close>

theorem broadcast_aborted_by_connection_error:
  "fst (process_and_broadcast broken_env demo_cfg (new_bot None [] []) ''sector update'')
     = Inl (PyException ''ConnectionError'' ''Connection aborted.'') \<and>
   calls (snd (process_and_broadcast broken_env demo_cfg (new_bot None [] []) ''sector update''))
     = [GrokRequest ''grok-4'' 0 ''sector update'',
        TweetRequest ''Markets rose today.'',
        TelegramRequest ''https://api.telegram.org/bot1/sendMessage'' (Some ''42'') ''Markets rose today.'',
        TweetRequest ''Banks led gains.'']"
  by (simp add: eval_defs
      broken_env_def broken_tweet_def three_paragraphs_def tweet_ok_def telegram_ok_def demo_cfg_def clean_demo)




subsection \<open>The scheduler\<close>




end
